theory Spec2Isabelle
  imports Complex_Main
begin

section \<open>Colours, errors and blocks\<close>

text \<open>
  The finite-volume assembler \<^verbatim>\<open>FvBaseAssembler\<close> of
  \<^verbatim>\<open>ewoms/disc/common/fvbaseassembler.hh\<close> and the Newton update of
  \<^verbatim>\<open>FvBaseNewtonMethod\<close>, as a shallow embedding. A class member that
  the source writes with a trailing underscore (\<^verbatim>\<open>dofColor_\<close>,
  \<^verbatim>\<open>assemble_\<close>) carries the suffix \<open>_m\<close> here, because a name may
  not end with an underscore. The scalar type \<^verbatim>\<open>Scalar\<close> is a template
  parameter of the source and a type parameter \<open>'a\<close> here; the definitions use only
  the operations the source applies to it.
\<close>

datatype EntityColor = Red | Yellow | Orange | Green

datatype error = NumericalProblem

type_synonym 'a VectorBlock = "'a list"
type_synonym 'a MatrixBlock = "'a list list"

text \<open>\<^verbatim>\<open>std::max(a, b)\<close> is \<^verbatim>\<open>(a < b) ? b : a\<close>.\<close>

definition stdMax :: "'a::ord \<Rightarrow> 'a \<Rightarrow> 'a" where
  "stdMax a b = (if a < b then b else a)"

text \<open>
  Assigning the scalar zero to a block (\<^verbatim>\<open>block = 0\<close>) overwrites every entry
  and keeps the block's shape; \<^verbatim>\<open>+=\<close>, \<^verbatim>\<open>-=\<close> work entry by entry and
  \<^verbatim>\<open>*=\<close> multiplies every entry by a scalar.
\<close>

definition vecAssignZero :: "'a::zero VectorBlock \<Rightarrow> 'a VectorBlock" where
  "vecAssignZero v = map (\<lambda>_. 0) v"

definition matAssignZero :: "'a::zero MatrixBlock \<Rightarrow> 'a MatrixBlock" where
  "matAssignZero m = map vecAssignZero m"

definition vecAdd :: "'a::plus VectorBlock \<Rightarrow> 'a VectorBlock \<Rightarrow> 'a VectorBlock" where
  "vecAdd v w = map2 (+) v w"

definition vecScale :: "'a::times VectorBlock \<Rightarrow> 'a \<Rightarrow> 'a VectorBlock" where
  "vecScale v c = map (\<lambda>x. x * c) v"

definition matAdd :: "'a::plus MatrixBlock \<Rightarrow> 'a MatrixBlock \<Rightarrow> 'a MatrixBlock" where
  "matAdd m n = map2 vecAdd m n"

definition matSub :: "'a::minus MatrixBlock \<Rightarrow> 'a MatrixBlock \<Rightarrow> 'a MatrixBlock" where
  "matSub m n = map2 (map2 (-)) m n"

definition matScale :: "'a::times MatrixBlock \<Rightarrow> 'a \<Rightarrow> 'a MatrixBlock" where
  "matScale m c = map (\<lambda>row. vecScale row c) m"

section \<open>The grid, the physical model and the assembler's state\<close>

text \<open>
  An element as the assembler sees it through \<^verbatim>\<open>Stencil\<close> and
  \<^verbatim>\<open>ElementContext\<close>: \<open>stencilDofs e ! d\<close> is
  \<^verbatim>\<open>globalSpaceIndex(d)\<close>, its length is \<^verbatim>\<open>numDof()\<close>, the first
  \<open>numPrimaryDof e\<close> of them are the primary degrees of freedom, and \<open>interior e\<close>
  says that \<^verbatim>\<open>partitionType()\<close> is \<^verbatim>\<open>InteriorEntity\<close>.
  The grid view is the list of its elements in traversal order; the element mapper maps
  an element to its position in that list.
\<close>

record element =
  stencilDofs :: "nat list"
  numPrimaryDof :: nat
  interior :: bool

text \<open>What \<^verbatim>\<open>localJacobian().assemble(ctx)\<close> leaves to be read.\<close>

record 'a LocalJacobian =
  lj_residual :: "nat \<Rightarrow> 'a VectorBlock"
  lj_residualStorage :: "nat \<Rightarrow> 'a VectorBlock"
  lj_jacobianStorage :: "nat \<Rightarrow> 'a MatrixBlock"
  lj_jacobian :: "nat \<Rightarrow> nat \<Rightarrow> 'a MatrixBlock"

text \<open>What \<^verbatim>\<open>localResidual().eval(ctx)\<close> leaves to be read.\<close>

record 'a LocalResidual =
  lr_residual :: "nat \<Rightarrow> 'a VectorBlock"
  lr_storageTerm :: "nat \<Rightarrow> 'a VectorBlock"

text \<open>
  The collaborators of the assembler, fixed during one call: the two run-time parameters,
  the model's number of degrees of freedom (also the number of rows of the matrix), the
  grid, the current time step size, and the physical model's evaluators at the current
  solution. An evaluator may throw \<^verbatim>\<open>Opm::NumericalProblem\<close>.
\<close>

record 'a problem =
  enableLinearizationRecycling :: bool
  enablePartialRelinearization :: bool
  numDof :: nat
  gridElements :: "element list"
  timeStepSize :: 'a
  localJacobianAssemble :: "nat \<Rightarrow> error + 'a LocalJacobian"
  localResidualEval :: "nat \<Rightarrow> error + 'a LocalResidual"
  dofTotalVolume :: "nat \<Rightarrow> 'a"
  eqWeight :: "nat \<Rightarrow> nat \<Rightarrow> 'a"

text \<open>
  The data members of \<^verbatim>\<open>FvBaseAssembler\<close>. The block-sparse matrix is read and
  written by row and column index; its sparsity pattern is fixed when it is created and
  plays no role in what follows, so \<open>matrix_m s i j\<close> is the block at row \<open>i\<close>,
  column \<open>j\<close>.
\<close>

record 'a assembler =
  matrix_m :: "nat \<Rightarrow> nat \<Rightarrow> 'a MatrixBlock"
  residual_m :: "'a VectorBlock list"
  reuseLinearization_m :: bool
  storageJacobian_m :: "'a MatrixBlock list"
  storageTerm_m :: "'a VectorBlock list"
  oldDt_m :: 'a
  dofColor_m :: "EntityColor list"
  dofError_m :: "'a list"
  elementColor_m :: "EntityColor list"
  totalElems_m :: nat
  greenElems_m :: nat
  nextRelinearizationAccuracy_m :: 'a
  relinearizationAccuracy_m :: 'a

section \<open>The public operations on colours\<close>

definition setLinearizationReusable :: "'a problem \<Rightarrow> bool \<Rightarrow> 'a assembler \<Rightarrow> 'a assembler" where
  "setLinearizationReusable P yesno s =
     (if enableLinearizationRecycling P then s\<lparr>reuseLinearization_m := yesno\<rparr> else s)"

definition relinearizeAll :: "'a::zero problem \<Rightarrow> 'a assembler \<Rightarrow> 'a assembler" where
  "relinearizeAll P s =
     (let s1 = s\<lparr>reuseLinearization_m := False, nextRelinearizationAccuracy_m := 0\<rparr>
      in if enablePartialRelinearization P
         then s1\<lparr>dofError_m := map (\<lambda>_. 0) (dofError_m s1),
                 dofColor_m := map (\<lambda>_. Red) (dofColor_m s1),
                 elementColor_m := map (\<lambda>_. Red) (elementColor_m s1)\<rparr>
         else s1)"

definition relinearizationAccuracy :: "'a assembler \<Rightarrow> 'a" where
  "relinearizationAccuracy s = relinearizationAccuracy_m s"

definition markDofRed :: "'a problem \<Rightarrow> nat \<Rightarrow> 'a assembler \<Rightarrow> 'a assembler" where
  "markDofRed P globalDofIdx s =
     (if \<not> enablePartialRelinearization P then s
      else s\<lparr>dofColor_m := (dofColor_m s)[globalDofIdx := Red]\<rparr>)"

text \<open>
  The two overloads of \<^verbatim>\<open>dofColor\<close> and of \<^verbatim>\<open>elementColor\<close>: by global
  index, and through an element (context) that is first mapped to a global index.
\<close>

definition dofColor :: "'a problem \<Rightarrow> 'a assembler \<Rightarrow> nat \<Rightarrow> EntityColor" where
  "dofColor P s globalDofIdx =
     (if \<not> enablePartialRelinearization P then Red else dofColor_m s ! globalDofIdx)"

definition dofColorCtx :: "'a problem \<Rightarrow> 'a assembler \<Rightarrow> element \<Rightarrow> nat \<Rightarrow> EntityColor" where
  "dofColorCtx P s elemCtx dofIdx =
     (if \<not> enablePartialRelinearization P then Red
      else (let globalIdx = stencilDofs elemCtx ! dofIdx in dofColor_m s ! globalIdx))"

definition elementColor :: "'a problem \<Rightarrow> 'a assembler \<Rightarrow> nat \<Rightarrow> EntityColor" where
  "elementColor P s globalElementIdx =
     (if \<not> enablePartialRelinearization P then Red else elementColor_m s ! globalElementIdx)"

text \<open>
  The overload taking an element maps it with the element mapper first; \<open>elementMapper\<close>
  stands for that mapping.
\<close>

definition elementColorOf :: "'a problem \<Rightarrow> 'a assembler \<Rightarrow> ('e \<Rightarrow> nat) \<Rightarrow> 'e \<Rightarrow> EntityColor" where
  "elementColorOf P s elementMapper elem =
     (if \<not> enablePartialRelinearization P then Red else elementColor_m s ! elementMapper elem)"

section \<open>Discrepancies and colouring\<close>

definition dofDistance :: "'a::{zero,ord,abs,times} problem \<Rightarrow> nat \<Rightarrow> 'a VectorBlock \<Rightarrow> 'a" where
  "dofDistance P globalDofIdx r =
     foldl (\<lambda>dist eqIdx. stdMax dist (abs (r ! eqIdx * eqWeight P globalDofIdx eqIdx)))
       0 [0..<length r]"

definition updateDofError ::
  "'a::{zero,ord,abs,times} problem \<Rightarrow> 'a VectorBlock list \<Rightarrow> 'a assembler \<Rightarrow> nat \<Rightarrow> 'a assembler" where
  "updateDofError P previousResid s globalDofIdx =
     (if dofTotalVolume P globalDofIdx \<le> 0
      then s\<lparr>dofError_m := (dofError_m s)[globalDofIdx := 0]\<rparr>
      else s\<lparr>dofError_m :=
               (dofError_m s)[globalDofIdx := dofDistance P globalDofIdx (previousResid ! globalDofIdx)]\<rparr>)"

definition updateDiscrepancy ::
  "'a::{zero,ord,abs,times} problem \<Rightarrow> 'a VectorBlock list \<Rightarrow> 'a assembler \<Rightarrow> 'a assembler" where
  "updateDiscrepancy P previousResid s =
     (if \<not> enablePartialRelinearization P then s
      else foldl (updateDofError P previousResid) s [0..<length previousResid])"

text \<open>
  \<^verbatim>\<open>computeColors\<close>, loop by loop. The first loop marks the degrees of freedom
  whose error is above the tolerance and tracks the largest error of the others.
\<close>

definition colorDofByError :: "'a::ord \<Rightarrow> 'a assembler \<Rightarrow> nat \<Rightarrow> 'a assembler" where
  "colorDofByError tolerance s i =
     (if dofError_m s ! i > tolerance
      then s\<lparr>dofColor_m := (dofColor_m s)[i := Red]\<rparr>
      else s\<lparr>nextRelinearizationAccuracy_m :=
               stdMax (nextRelinearizationAccuracy_m s) (dofError_m s ! i)\<rparr>)"

definition markRedDofs :: "'a::{zero,ord} \<Rightarrow> 'a assembler \<Rightarrow> 'a assembler" where
  "markRedDofs tolerance s =
     foldl (colorDofByError tolerance) (s\<lparr>nextRelinearizationAccuracy_m := 0\<rparr>)
       [0..<length (dofColor_m s)]"

text \<open>
  The search loops over a stencil (\<^verbatim>\<open>isRed\<close>, \<^verbatim>\<open>isYellow\<close>) stop at the
  first degree of freedom of the colour looked for.
\<close>

definition stencilHasColor :: "'a assembler \<Rightarrow> element \<Rightarrow> EntityColor \<Rightarrow> bool" where
  "stencilHasColor s e c = list_ex (\<lambda>globalIdx. dofColor_m s ! globalIdx = c) (stencilDofs e)"

definition markRedElement :: "'a problem \<Rightarrow> 'a assembler \<Rightarrow> nat \<Rightarrow> 'a assembler" where
  "markRedElement P s globalElemIdx =
     (let isRed = stencilHasColor s (gridElements P ! globalElemIdx) Red
      in if isRed then s\<lparr>elementColor_m := (elementColor_m s)[globalElemIdx := Red]\<rparr>
         else s\<lparr>elementColor_m := (elementColor_m s)[globalElemIdx := Green]\<rparr>)"

definition markRedElements :: "'a problem \<Rightarrow> 'a assembler \<Rightarrow> 'a assembler" where
  "markRedElements P s = foldl (markRedElement P) s [0..<length (gridElements P)]"

definition tintDofOrange :: "'a assembler \<Rightarrow> nat \<Rightarrow> 'a assembler" where
  "tintDofOrange s globalIdx =
     (if dofColor_m s ! globalIdx \<noteq> Red
      then s\<lparr>dofColor_m := (dofColor_m s)[globalIdx := Orange]\<rparr> else s)"

definition markOrangeDofsOf :: "'a problem \<Rightarrow> 'a assembler \<Rightarrow> nat \<Rightarrow> 'a assembler" where
  "markOrangeDofsOf P s elemIdx =
     (if elementColor_m s ! elemIdx \<noteq> Red then s
      else foldl tintDofOrange s (stencilDofs (gridElements P ! elemIdx)))"

definition markOrangeDofs :: "'a problem \<Rightarrow> 'a assembler \<Rightarrow> 'a assembler" where
  "markOrangeDofs P s = foldl (markOrangeDofsOf P) s [0..<length (gridElements P)]"

definition markYellowElement :: "'a problem \<Rightarrow> 'a assembler \<Rightarrow> nat \<Rightarrow> 'a assembler" where
  "markYellowElement P s elemIdx =
     (if elementColor_m s ! elemIdx = Red then s
      else (let isYellow = stencilHasColor s (gridElements P ! elemIdx) Orange
            in if isYellow then s\<lparr>elementColor_m := (elementColor_m s)[elemIdx := Yellow]\<rparr>
               else s))"

definition markYellowElements :: "'a problem \<Rightarrow> 'a assembler \<Rightarrow> 'a assembler" where
  "markYellowElements P s = foldl (markYellowElement P) s [0..<length (gridElements P)]"

definition demoteDof :: "'a assembler \<Rightarrow> nat \<Rightarrow> 'a assembler" where
  "demoteDof s globalIdx =
     (if dofColor_m s ! globalIdx = Orange
      then s\<lparr>dofColor_m := (dofColor_m s)[globalIdx := Yellow]\<rparr> else s)"

definition demoteOrangeDofsOf :: "'a problem \<Rightarrow> 'a assembler \<Rightarrow> nat \<Rightarrow> 'a assembler" where
  "demoteOrangeDofsOf P s elemIdx =
     (if elementColor_m s ! elemIdx \<noteq> Green then s
      else foldl demoteDof s (stencilDofs (gridElements P ! elemIdx)))"

definition demoteOrangeDofs :: "'a problem \<Rightarrow> 'a assembler \<Rightarrow> 'a assembler" where
  "demoteOrangeDofs P s = foldl (demoteOrangeDofsOf P) s [0..<length (gridElements P)]"

definition promoteDof :: "'a::zero assembler \<Rightarrow> nat \<Rightarrow> 'a assembler" where
  "promoteDof s i =
     (if dofColor_m s ! i = Green \<or> dofColor_m s ! i = Yellow then s
      else s\<lparr>dofColor_m := (dofColor_m s)[i := Red], dofError_m := (dofError_m s)[i := 0]\<rparr>)"

definition promoteOrangeDofs :: "'a::zero assembler \<Rightarrow> 'a assembler" where
  "promoteOrangeDofs s = foldl promoteDof s [0..<length (dofColor_m s)]"

text \<open>
  The two \<^verbatim>\<open>communicate\<close> calls of \<^verbatim>\<open>computeColors\<close> reconcile the colours
  of degrees of freedom on the border between two processes. \<open>computeColors\<close> is the
  function on one process that shares no degree of freedom with another one, where both
  calls leave \<^verbatim>\<open>dofColor_\<close> as it is. The three pieces of work between the
  calls are \<open>colorsBeforeMinExchange\<close>, \<open>colorsBeforeMaxExchange\<close> and
  \<open>promoteOrangeDofs\<close>.
\<close>

definition colorsBeforeMinExchange :: "'a::{zero,ord} problem \<Rightarrow> 'a \<Rightarrow> 'a assembler \<Rightarrow> 'a assembler" where
  "colorsBeforeMinExchange P tolerance s =
     markOrangeDofs P (markRedElements P (markRedDofs tolerance s))"

definition colorsBeforeMaxExchange :: "'a problem \<Rightarrow> 'a assembler \<Rightarrow> 'a assembler" where
  "colorsBeforeMaxExchange P s = demoteOrangeDofs P (markYellowElements P s)"

definition computeColors :: "'a::{zero,ord} problem \<Rightarrow> 'a \<Rightarrow> 'a assembler \<Rightarrow> 'a assembler" where
  "computeColors P tolerance s =
     (if \<not> enablePartialRelinearization P then s
      else promoteOrangeDofs (colorsBeforeMaxExchange P (colorsBeforeMinExchange P tolerance s)))"

section \<open>Assembly\<close>

definition resetStorage :: "'a::zero assembler \<Rightarrow> nat \<Rightarrow> 'a assembler" where
  "resetStorage s i =
     s\<lparr>storageJacobian_m := (storageJacobian_m s)[i := matAssignZero (storageJacobian_m s ! i)],
       storageTerm_m := (storageTerm_m s)[i := vecAssignZero (storageTerm_m s ! i)]\<rparr>"

definition resetRow :: "'a::zero problem \<Rightarrow> 'a assembler \<Rightarrow> nat \<Rightarrow> 'a assembler" where
  "resetRow P s rowIdx =
     (if dofColor_m s ! rowIdx = Green then s
      else (let s1 = (if enableLinearizationRecycling P then resetStorage s rowIdx else s)
            in s1\<lparr>matrix_m := (matrix_m s1)(rowIdx := \<lambda>col. matAssignZero (matrix_m s1 rowIdx col))\<rparr>))"

definition resetSystem_m :: "'a::zero problem \<Rightarrow> 'a assembler \<Rightarrow> 'a assembler" where
  "resetSystem_m P s =
     (if reuseLinearization_m s then s
      else (let s1 = s\<lparr>residual_m := map vecAssignZero (residual_m s)\<rparr>
            in if \<not> enablePartialRelinearization P
               then (let s2 = s1\<lparr>matrix_m := (\<lambda>row col. matAssignZero (matrix_m s1 row col))\<rparr>
                     in if enableLinearizationRecycling P
                        then foldl resetStorage s2 [0..<numDof P]
                        else s2)
               else foldl (resetRow P) s1 [0..<numDof P]))"

text \<open>The body of the loop of the recycling path, for one degree of freedom.\<close>

definition recycleDof :: "'a::{one,uminus,plus,minus,times,inverse} \<Rightarrow> 'a assembler \<Rightarrow> nat \<Rightarrow> 'a assembler" where
  "recycleDof curDt s i =
     (let J1 = matSub (matrix_m s i i) (storageJacobian_m s ! i);
          Js = matScale (storageJacobian_m s ! i) (oldDt_m s / curDt);
          J2 = matAdd J1 Js
      in s\<lparr>matrix_m := (matrix_m s)(i := (matrix_m s i)(i := J2)),
           storageJacobian_m := (storageJacobian_m s)[i := Js],
           residual_m := (residual_m s)[i := vecScale (storageTerm_m s ! i) (- 1)]\<rparr>)"

definition addGreenResidual ::
  "'a::plus problem \<Rightarrow> element \<Rightarrow> 'a LocalResidual \<Rightarrow> 'a assembler \<Rightarrow> nat \<Rightarrow> 'a assembler" where
  "addGreenResidual P elem lr s dofIdx =
     (let globI = stencilDofs elem ! dofIdx;
          s1 = s\<lparr>residual_m :=
                 (residual_m s)[globI := vecAdd (residual_m s ! globI) (lr_residual lr dofIdx)]\<rparr>
      in if enableLinearizationRecycling P
         then s1\<lparr>storageTerm_m :=
                 (storageTerm_m s1)[globI := vecAdd (storageTerm_m s1 ! globI) (lr_storageTerm lr dofIdx)]\<rparr>
         else s1)"

definition assembleGreenElement_m ::
  "'a::plus problem \<Rightarrow> 'a assembler \<Rightarrow> nat \<Rightarrow> error + 'a assembler" where
  "assembleGreenElement_m P s elemIdx =
     (case localResidualEval P elemIdx of
        Inl e \<Rightarrow> Inl e
      | Inr lr \<Rightarrow>
          Inr (foldl (addGreenResidual P (gridElements P ! elemIdx) lr) s
                 [0..<numPrimaryDof (gridElements P ! elemIdx)]))"

definition addJacobianBlock ::
  "element \<Rightarrow> 'a::plus LocalJacobian \<Rightarrow> nat \<Rightarrow> nat \<Rightarrow> 'a assembler \<Rightarrow> nat \<Rightarrow> 'a assembler" where
  "addJacobianBlock elem lj primaryDofIdx globI s dofIdx =
     (let globJ = stencilDofs elem ! dofIdx
      in s\<lparr>matrix_m := (matrix_m s)(globI := (matrix_m s globI)
             (globJ := matAdd (matrix_m s globI globJ) (lj_jacobian lj primaryDofIdx dofIdx)))\<rparr>)"

text \<open>
  The body of the loop over the primary degrees of freedom of an element that is not
  green, in its two halves: the right-hand side and the cached storage term, which every
  primary degree of freedom gets, and the Jacobian with the cached storage Jacobian,
  which only a degree of freedom that is not green gets.
\<close>

definition addPrimaryResidual ::
  "'a::plus problem \<Rightarrow> element \<Rightarrow> 'a LocalJacobian \<Rightarrow> 'a assembler \<Rightarrow> nat \<Rightarrow> 'a assembler" where
  "addPrimaryResidual P elem lj s primaryDofIdx =
     (let globI = stencilDofs elem ! primaryDofIdx;
          s1 = s\<lparr>residual_m :=
                 (residual_m s)[globI := vecAdd (residual_m s ! globI) (lj_residual lj primaryDofIdx)]\<rparr>
      in if enableLinearizationRecycling P
         then s1\<lparr>storageTerm_m :=
                 (storageTerm_m s1)[globI := vecAdd (storageTerm_m s1 ! globI)
                                              (lj_residualStorage lj primaryDofIdx)]\<rparr>
         else s1)"

definition addPrimaryJacobian ::
  "'a::plus problem \<Rightarrow> element \<Rightarrow> 'a LocalJacobian \<Rightarrow> 'a assembler \<Rightarrow> nat \<Rightarrow> 'a assembler" where
  "addPrimaryJacobian P elem lj s primaryDofIdx =
     (let globI = stencilDofs elem ! primaryDofIdx
      in if dofColor P s globI \<noteq> Green
         then (let s3 = (if enableLinearizationRecycling P
                         then s\<lparr>storageJacobian_m :=
                                 (storageJacobian_m s)[globI := matAdd (storageJacobian_m s ! globI)
                                                               (lj_jacobianStorage lj primaryDofIdx)]\<rparr>
                         else s)
               in foldl (addJacobianBlock elem lj primaryDofIdx globI) s3 [0..<length (stencilDofs elem)])
         else s)"

definition assemblePrimaryDof ::
  "'a::plus problem \<Rightarrow> element \<Rightarrow> 'a LocalJacobian \<Rightarrow> 'a assembler \<Rightarrow> nat \<Rightarrow> 'a assembler" where
  "assemblePrimaryDof P elem lj s primaryDofIdx =
     addPrimaryJacobian P elem lj (addPrimaryResidual P elem lj s primaryDofIdx) primaryDofIdx"

definition assembleElement_m ::
  "'a::plus problem \<Rightarrow> 'a assembler \<Rightarrow> nat \<Rightarrow> error + 'a assembler" where
  "assembleElement_m P s elemIdx =
     (if enablePartialRelinearization P \<and> elementColor_m s ! elemIdx = Green
      then assembleGreenElement_m P (s\<lparr>greenElems_m := greenElems_m s + 1\<rparr>) elemIdx
      else (case localJacobianAssemble P elemIdx of
              Inl e \<Rightarrow> Inl e
            | Inr lj \<Rightarrow>
                Inr (foldl (assemblePrimaryDof P (gridElements P ! elemIdx) lj) s
                       [0..<numPrimaryDof (gridElements P ! elemIdx)])))"

text \<open>
  The element loop of \<^verbatim>\<open>assemble_\<close>: elements outside the interior partition are
  skipped, and an exception of an evaluator ends the loop.
\<close>

fun assembleElements :: "'a::plus problem \<Rightarrow> 'a assembler \<Rightarrow> nat list \<Rightarrow> error + 'a assembler" where
  "assembleElements P s [] = Inr s"
| "assembleElements P s (elemIdx # rest) =
     (if \<not> interior (gridElements P ! elemIdx) then assembleElements P s rest
      else (case assembleElement_m P s elemIdx of
              Inl e \<Rightarrow> Inl e
            | Inr s' \<Rightarrow> assembleElements P s' rest))"

definition assemble_m ::
  "'a::{zero,one,uminus,plus,minus,times,inverse} problem \<Rightarrow> 'a assembler \<Rightarrow> error + 'a assembler" where
  "assemble_m P s =
     (let s0 = resetSystem_m P s;
          curDt = timeStepSize P
      in if reuseLinearization_m s0
         then (let s1 = foldl (recycleDof curDt) s0 [0..<length (storageJacobian_m s0)]
               in Inr (s1\<lparr>reuseLinearization_m := False, oldDt_m := curDt\<rparr>))
         else assembleElements P (s0\<lparr>oldDt_m := curDt, greenElems_m := 0\<rparr>)
                [0..<length (gridElements P)])"

text \<open>
  \<^verbatim>\<open>assemble\<close>: on one process the reductions \<^verbatim>\<open>comm().min\<close>,
  \<^verbatim>\<open>comm().sum\<close> and \<^verbatim>\<open>comm().max\<close> return their argument. An exception
  of \<^verbatim>\<open>assemble_\<close> is caught and thrown again as a
  \<^verbatim>\<open>NumericalProblem\<close>, before the colours are reset.
\<close>

definition assemble ::
  "'a::{zero,one,uminus,plus,minus,times,inverse} problem \<Rightarrow> 'a assembler \<Rightarrow> error + 'a assembler" where
  "assemble P s =
     (let linearizationReused = reuseLinearization_m s
      in case assemble_m P s of
           Inl e \<Rightarrow> Inl NumericalProblem
         | Inr s1 \<Rightarrow>
             (let s2 = (if \<not> linearizationReused \<and> enablePartialRelinearization P
                        then s1\<lparr>greenElems_m := greenElems_m s1,
                                relinearizationAccuracy_m := nextRelinearizationAccuracy_m s1\<rparr>
                        else s1)
              in Inr (s2\<lparr>dofColor_m := map (\<lambda>_. Green) (dofColor_m s2)\<rparr>)))"

section \<open>Well-formed states\<close>

text \<open>
  \<^verbatim>\<open>init\<close> sizes the residual to the number of degrees of freedom, the two
  recycling caches too when recycling is enabled, and the colour and error arrays to the
  numbers of degrees of freedom and of elements when partial relinearization is enabled.
  A stencil only holds indices of degrees of freedom of the model, its primary ones first.
\<close>

definition stencilsInRange :: "'a problem \<Rightarrow> bool" where
  "stencilsInRange P \<longleftrightarrow>
     (\<forall>e \<in> set (gridElements P).
        numPrimaryDof e \<le> length (stencilDofs e) \<and> (\<forall>g \<in> set (stencilDofs e). g < numDof P))"

definition sizedAsInit :: "'a problem \<Rightarrow> 'a assembler \<Rightarrow> bool" where
  "sizedAsInit P s \<longleftrightarrow>
     length (residual_m s) = numDof P \<and>
     (enableLinearizationRecycling P \<longrightarrow>
        length (storageJacobian_m s) = numDof P \<and> length (storageTerm_m s) = numDof P) \<and>
     (enablePartialRelinearization P \<longrightarrow>
        length (dofColor_m s) = numDof P \<and> length (dofError_m s) = numDof P \<and>
        length (elementColor_m s) = length (gridElements P))"

text \<open>
  How one loop of \<^verbatim>\<open>computeColors\<close> may change the colours of the degrees of
  freedom: tinting turns colours other than red into orange, demoting turns orange into
  yellow; neither touches the element colours or the errors.
\<close>

definition orangeStep :: "'a assembler \<Rightarrow> 'a assembler \<Rightarrow> bool" where
  "orangeStep s t \<longleftrightarrow> elementColor_m t = elementColor_m s \<and> dofError_m t = dofError_m s \<and>
     length (dofColor_m t) = length (dofColor_m s) \<and>
     (\<forall>i. dofColor_m t ! i = dofColor_m s ! i \<or> (dofColor_m s ! i \<noteq> Red \<and> dofColor_m t ! i = Orange))"

definition demoteStep :: "'a assembler \<Rightarrow> 'a assembler \<Rightarrow> bool" where
  "demoteStep s t \<longleftrightarrow> elementColor_m t = elementColor_m s \<and> dofError_m t = dofError_m s \<and>
     length (dofColor_m t) = length (dofColor_m s) \<and>
     (\<forall>i. dofColor_m t ! i = dofColor_m s ! i \<or> (dofColor_m s ! i = Orange \<and> dofColor_m t ! i = Yellow))"

section \<open>A chain of four degrees of freedom\<close>

text \<open>
  A one-dimensional grid of three elements, each coupling two neighbouring degrees of
  freedom, with one equation per degree of freedom and an evaluator that returns the same
  local residual and Jacobian for every element.
\<close>

definition unitJacobian :: "real LocalJacobian" where
  "unitJacobian = \<lparr>lj_residual = (\<lambda>_. [1]), lj_residualStorage = (\<lambda>_. [2]),
     lj_jacobianStorage = (\<lambda>_. [[4]]), lj_jacobian = (\<lambda>_ _. [[8]])\<rparr>"

definition unitResidual :: "real LocalResidual" where
  "unitResidual = \<lparr>lr_residual = (\<lambda>_. [1]), lr_storageTerm = (\<lambda>_. [2])\<rparr>"

definition chainProblem :: "real problem" where
  "chainProblem = \<lparr>enableLinearizationRecycling = True, enablePartialRelinearization = True,
     numDof = 4,
     gridElements = [\<lparr>stencilDofs = [0, 1], numPrimaryDof = 2, interior = True\<rparr>,
                     \<lparr>stencilDofs = [1, 2], numPrimaryDof = 2, interior = True\<rparr>,
                     \<lparr>stencilDofs = [2, 3], numPrimaryDof = 2, interior = True\<rparr>],
     timeStepSize = 1,
     localJacobianAssemble = (\<lambda>_. Inr unitJacobian),
     localResidualEval = (\<lambda>_. Inr unitResidual),
     dofTotalVolume = (\<lambda>_. 1), eqWeight = (\<lambda>_ _. 1)\<rparr>"

text \<open>
  The diagonal block of degree of freedom \<open>i\<close> as the recycling path leaves it:
  the cached storage Jacobian is subtracted, rescaled by the ratio of the old and the
  current time step size, and added again.
\<close>

definition recycledBlock :: "'a::{plus,minus,times,inverse} assembler \<Rightarrow> 'a \<Rightarrow> nat \<Rightarrow> 'a MatrixBlock" where
  "recycledBlock s curDt i =
     matAdd (matSub (matrix_m s i i) (storageJacobian_m s ! i))
            (matScale (storageJacobian_m s ! i) (oldDt_m s / curDt))"

text \<open>
  The chain after \<^verbatim>\<open>init\<close> and a first, full \<^verbatim>\<open>assemble\<close> with
  time step size 1: every element has added its local residual, storage term and Jacobian
  to its two degrees of freedom. In the matrix, a degree of freedom is coupled to itself
  and to its neighbours in the chain.
\<close>

definition chainMatrix :: "nat \<Rightarrow> nat \<Rightarrow> real MatrixBlock" where
  "chainMatrix i j =
     (if i < 4 \<and> j < 4
      then (if i = j then (if i = 0 \<or> i = 3 then [[8]] else [[16]])
            else if i = Suc j \<or> j = Suc i then [[8]] else [[0]])
      else [[0]])"

definition chainAssembled :: "real assembler" where
  "chainAssembled = \<lparr>matrix_m = chainMatrix,
     residual_m = [[1], [2], [2], [1]],
     reuseLinearization_m = False, storageJacobian_m = [[[4]], [[8]], [[8]], [[4]]],
     storageTerm_m = [[2], [4], [4], [2]], oldDt_m = 1,
     dofColor_m = [Green, Green, Green, Green], dofError_m = [0, 0, 0, 0],
     elementColor_m = [Red, Red, Red], totalElems_m = 3, greenElems_m = 0,
     nextRelinearizationAccuracy_m = 0, relinearizationAccuracy_m = 0\<rparr>"

text \<open>
  The assembler as \<^verbatim>\<open>init\<close> leaves it on the chain: the matrix and the vectors
  are sized and zero, every degree of freedom and every element is red.
\<close>

definition chainInitial :: "real assembler" where
  "chainInitial = \<lparr>matrix_m = (\<lambda>_ _. [[0]]), residual_m = [[0], [0], [0], [0]],
     reuseLinearization_m = False, storageJacobian_m = [[[0]], [[0]], [[0]], [[0]]],
     storageTerm_m = [[0], [0], [0], [0]], oldDt_m = 0,
     dofColor_m = [Red, Red, Red, Red], dofError_m = [0, 0, 0, 0],
     elementColor_m = [Red, Red, Red], totalElems_m = 3, greenElems_m = 0,
     nextRelinearizationAccuracy_m = 0, relinearizationAccuracy_m = 0\<rparr>"

text \<open>
  \<open>chainState errs\<close> is the assembled chain with the errors \<open>errs\<close> recorded by
  \<^verbatim>\<open>updateDiscrepancy\<close>.
\<close>

definition chainState :: "real list \<Rightarrow> real assembler" where
  "chainState errs = chainAssembled\<lparr>dofError_m := errs\<rparr>"

text \<open>
  What assembling never touches: the colours, the errors and the accuracy that
  \<^verbatim>\<open>computeColors\<close> has computed, and the sizes of the arrays.
\<close>

definition sameColors :: "'a assembler \<Rightarrow> 'a assembler \<Rightarrow> bool" where
  "sameColors s t \<longleftrightarrow>
     elementColor_m t = elementColor_m s \<and> dofColor_m t = dofColor_m s \<and>
     dofError_m t = dofError_m s \<and>
     nextRelinearizationAccuracy_m t = nextRelinearizationAccuracy_m s \<and>
     relinearizationAccuracy_m t = relinearizationAccuracy_m s \<and>
     reuseLinearization_m t = reuseLinearization_m s \<and>
     length (residual_m t) = length (residual_m s) \<and>
     length (storageJacobian_m t) = length (storageJacobian_m s) \<and>
     length (storageTerm_m t) = length (storageTerm_m s)"

text \<open>
  The blocks that the element loop of \<^verbatim>\<open>assemble_\<close> adds for one element, in the
  order of the loop over its primary degrees of freedom: the global index of the degree
  of freedom, the block added to the residual, and the block added to the cached storage
  term when recycling is enabled. A green element gets them from
  \<^verbatim>\<open>localResidual()\<close>, any other element from \<^verbatim>\<open>localJacobian()\<close>.
\<close>

definition elementContribs ::
  "'a problem \<Rightarrow> 'a assembler \<Rightarrow> nat \<Rightarrow> (nat \<times> 'a VectorBlock \<times> 'a VectorBlock) list" where
  "elementContribs P s elemIdx =
     (let elem = gridElements P ! elemIdx
      in if \<not> interior elem then []
         else if enablePartialRelinearization P \<and> elementColor_m s ! elemIdx = Green
         then (case localResidualEval P elemIdx of
                 Inl e \<Rightarrow> []
               | Inr lr \<Rightarrow> map (\<lambda>d. (stencilDofs elem ! d, lr_residual lr d, lr_storageTerm lr d))
                             [0..<numPrimaryDof elem])
         else (case localJacobianAssemble P elemIdx of
                 Inl e \<Rightarrow> []
               | Inr lj \<Rightarrow> map (\<lambda>d. (stencilDofs elem ! d, lj_residual lj d, lj_residualStorage lj d))
                             [0..<numPrimaryDof elem]))"

definition contributionsTo ::
  "'a problem \<Rightarrow> 'a assembler \<Rightarrow> nat list \<Rightarrow> nat \<Rightarrow> (nat \<times> 'a VectorBlock \<times> 'a VectorBlock) list" where
  "contributionsTo P s elemIdxs globalDofIdx =
     filter (\<lambda>c. fst c = globalDofIdx) (concat (map (elementContribs P s) elemIdxs))"

definition residualContributions :: "'a problem \<Rightarrow> 'a assembler \<Rightarrow> nat \<Rightarrow> 'a VectorBlock list" where
  "residualContributions P s globalDofIdx =
     map (\<lambda>c. fst (snd c)) (contributionsTo P s [0..<length (gridElements P)] globalDofIdx)"

definition storageContributions :: "'a problem \<Rightarrow> 'a assembler \<Rightarrow> nat \<Rightarrow> 'a VectorBlock list" where
  "storageContributions P s globalDofIdx =
     map (\<lambda>c. snd (snd c)) (contributionsTo P s [0..<length (gridElements P)] globalDofIdx)"

text \<open>The evaluators of the physical model do not throw on any element of the grid.\<close>

definition evaluatorsSucceed :: "'a problem \<Rightarrow> bool" where
  "evaluatorsSucceed P \<longleftrightarrow>
     (\<forall>k < length (gridElements P).
        \<not> isl (localJacobianAssemble P k) \<and> \<not> isl (localResidualEval P k))"

text \<open>
  What a step leaves alone of a row \<open>i\<close>: the row of the matrix, the cached storage
  Jacobian and, for \<open>rowKept\<close>, also the cached storage term and the residual.
\<close>

definition jacobianKept :: "nat \<Rightarrow> 'a assembler \<Rightarrow> 'a assembler \<Rightarrow> bool" where
  "jacobianKept i s t \<longleftrightarrow>
     sameColors s t \<and> matrix_m t i = matrix_m s i \<and>
     storageJacobian_m t ! i = storageJacobian_m s ! i"

definition rowKept :: "nat \<Rightarrow> 'a assembler \<Rightarrow> 'a assembler \<Rightarrow> bool" where
  "rowKept i s t \<longleftrightarrow>
     jacobianKept i s t \<and> storageTerm_m t ! i = storageTerm_m s ! i \<and>
     residual_m t = residual_m s \<and> oldDt_m t = oldDt_m s"

text \<open>
  The assembled chain after \<^verbatim>\<open>updateDiscrepancy\<close> has recorded the errors
  \<open>1, 0, 0, 0\<close> and \<^verbatim>\<open>computeColors(1/2)\<close> has run.
\<close>

definition chainColored :: "real assembler" where
  "chainColored = \<lparr>matrix_m = chainMatrix,
     residual_m = [[1], [2], [2], [1]],
     reuseLinearization_m = False, storageJacobian_m = [[[4]], [[8]], [[8]], [[4]]],
     storageTerm_m = [[2], [4], [4], [2]], oldDt_m = 1,
     dofColor_m = [Red, Red, Green, Green], dofError_m = [0, 0, 0, 0],
     elementColor_m = [Red, Yellow, Green], totalElems_m = 3, greenElems_m = 0,
     nextRelinearizationAccuracy_m = 0, relinearizationAccuracy_m = 0\<rparr>"

text \<open>
  The assembled chain after \<^verbatim>\<open>computeColors\<close> has found every error below the
  tolerance: all elements and all degrees of freedom are green.
\<close>

definition chainSettled :: "real assembler" where
  "chainSettled = chainAssembled\<lparr>elementColor_m := [Green, Green, Green]\<rparr>"

text \<open>
  What the documentation of \<^verbatim>\<open>relinearizationAccuracy()\<close> promises: the largest
  error of a degree of freedom that the colouring has left green (zero when there is none).
\<close>

definition largestGreenError :: "'a::{zero,ord} assembler \<Rightarrow> 'a" where
  "largestGreenError s =
     foldl stdMax 0
       (map (\<lambda>i. dofError_m s ! i) (filter (\<lambda>i. dofColor_m s ! i = Green) [0..<length (dofColor_m s)]))"

section \<open>An assembler without colouring\<close>

text \<open>
  The reference of claim C8: the assembler of section 4.3 of the specification with
  everything about colours left out. It has no colour arrays to look at: it resets the
  whole system, evaluates the local residual and Jacobian of every interior element, and
  adds every block. The recycling path is not colouring logic and is kept as it is.
  \<open>fullTraversal\<close> is the traversal of all elements alone.
\<close>

text \<open>The getters \<^verbatim>\<open>matrix()\<close> and \<^verbatim>\<open>residual()\<close> of the source.\<close>

definition matrix :: "'a assembler \<Rightarrow> nat \<Rightarrow> nat \<Rightarrow> 'a MatrixBlock" where
  "matrix s = matrix_m s"

definition residual :: "'a assembler \<Rightarrow> 'a VectorBlock list" where
  "residual s = residual_m s"

text \<open>The reference assembler.\<close>

definition plainReset :: "'a::zero problem \<Rightarrow> 'a assembler \<Rightarrow> 'a assembler" where
  "plainReset P s =
     (let s1 = s\<lparr>residual_m := map vecAssignZero (residual_m s),
                 matrix_m := (\<lambda>row col. matAssignZero (matrix_m s row col))\<rparr>
      in if enableLinearizationRecycling P
         then s1\<lparr>storageJacobian_m := map matAssignZero (storageJacobian_m s1),
                 storageTerm_m := map vecAssignZero (storageTerm_m s1)\<rparr>
         else s1)"

definition plainPrimaryDof ::
  "'a::plus problem \<Rightarrow> element \<Rightarrow> 'a LocalJacobian \<Rightarrow> 'a assembler \<Rightarrow> nat \<Rightarrow> 'a assembler" where
  "plainPrimaryDof P elem lj s primaryDofIdx =
     (let globI = stencilDofs elem ! primaryDofIdx;
          s1 = s\<lparr>residual_m :=
                 (residual_m s)[globI := vecAdd (residual_m s ! globI) (lj_residual lj primaryDofIdx)]\<rparr>;
          s2 = (if enableLinearizationRecycling P
                then s1\<lparr>storageTerm_m :=
                          (storageTerm_m s1)[globI := vecAdd (storageTerm_m s1 ! globI)
                                                       (lj_residualStorage lj primaryDofIdx)],
                        storageJacobian_m :=
                          (storageJacobian_m s1)[globI := matAdd (storageJacobian_m s1 ! globI)
                                                           (lj_jacobianStorage lj primaryDofIdx)]\<rparr>
                else s1)
      in foldl (\<lambda>t dofIdx.
                  t\<lparr>matrix_m := (matrix_m t)(globI := (matrix_m t globI)
                       (stencilDofs elem ! dofIdx :=
                          matAdd (matrix_m t globI (stencilDofs elem ! dofIdx))
                                 (lj_jacobian lj primaryDofIdx dofIdx)))\<rparr>)
           s2 [0..<length (stencilDofs elem)])"

fun plainElements :: "'a::plus problem \<Rightarrow> 'a assembler \<Rightarrow> nat list \<Rightarrow> error + 'a assembler" where
  "plainElements P s [] = Inr s"
| "plainElements P s (elemIdx # rest) =
     (if \<not> interior (gridElements P ! elemIdx) then plainElements P s rest
      else (case localJacobianAssemble P elemIdx of
              Inl e \<Rightarrow> Inl e
            | Inr lj \<Rightarrow>
                plainElements P
                  (foldl (plainPrimaryDof P (gridElements P ! elemIdx) lj) s
                     [0..<numPrimaryDof (gridElements P ! elemIdx)])
                  rest))"

definition fullTraversal :: "'a::{zero,plus} problem \<Rightarrow> 'a assembler \<Rightarrow> error + 'a assembler" where
  "fullTraversal P s =
     plainElements P ((plainReset P s)\<lparr>oldDt_m := timeStepSize P\<rparr>) [0..<length (gridElements P)]"

definition assembleNoColoring ::
  "'a::{zero,one,uminus,plus,minus,times,inverse} problem \<Rightarrow> 'a assembler \<Rightarrow> error + 'a assembler" where
  "assembleNoColoring P s =
     (if reuseLinearization_m s
      then Inr ((foldl (recycleDof (timeStepSize P)) s [0..<length (storageJacobian_m s)])
                  \<lparr>reuseLinearization_m := False, oldDt_m := timeStepSize P\<rparr>)
      else fullTraversal P s)"

text \<open>What a call of \<^verbatim>\<open>assemble\<close> produces: the matrix, the residual and the caches.\<close>

definition linearization ::
  "'a assembler \<Rightarrow> (nat \<Rightarrow> nat \<Rightarrow> 'a MatrixBlock) \<times> 'a VectorBlock list \<times> 'a MatrixBlock list \<times> 'a VectorBlock list" where
  "linearization s = (matrix s, residual s, storageJacobian_m s, storageTerm_m s)"

definition sameSystem :: "'a assembler \<Rightarrow> 'a assembler \<Rightarrow> bool" where
  "sameSystem s t \<longleftrightarrow>
     matrix_m s = matrix_m t \<and> residual_m s = residual_m t \<and>
     storageJacobian_m s = storageJacobian_m t \<and> storageTerm_m s = storageTerm_m t \<and>
     reuseLinearization_m s = reuseLinearization_m t \<and> oldDt_m s = oldDt_m t"

text \<open>
  The chain with partial relinearization disabled: \<^verbatim>\<open>init\<close> then leaves the
  colour and error arrays empty.
\<close>

definition plainChainProblem :: "real problem" where
  "plainChainProblem = chainProblem\<lparr>enablePartialRelinearization := False\<rparr>"

definition plainChainAssembled :: "real assembler" where
  "plainChainAssembled = chainAssembled\<lparr>dofColor_m := [], dofError_m := [], elementColor_m := []\<rparr>"

section \<open>The Newton update\<close>

text \<open>
  \<^verbatim>\<open>FvBaseNewtonMethod::update_\<close> asks whether a scalar is finite, so its model needs
  the arithmetic of the scalars. \<open>Scalar\<close> is an IEEE 754 binary64 number (a
  \<^verbatim>\<open>double\<close>): a finite value, an infinity or NaN. A finite scalar carries its
  value as a real number; the doubles among them are the multiples \<open>m * 2^(e - 52)\<close>
  with \<open>\<bar>m\<bar> < 2^53\<close> and \<open>-1022 \<le> e \<le> 1023\<close>. Every arithmetic operation
  computes the exact result and rounds it to the nearest double, ties to the even
  significand, in the default rounding mode and one operation at a time; a result that
  rounds to \<open>2^1024\<close> or beyond overflows to an infinity. The sign of a zero and the
  payload of a NaN are left out: nothing in \<^verbatim>\<open>update_\<close> tells them apart.

  \<open>exponent r\<close> is the binary exponent of \<open>r\<close> in the range of the normal doubles:
  the largest \<open>e\<close> up to 1023 with \<open>2^e \<le> \<bar>r\<bar>\<close>, and -1022 for the subnormal numbers
  and zero. It is found by counting up from -1022. \<open>ulp r\<close> is the distance between two
  neighbouring doubles at \<open>r\<close>.
\<close>

datatype Scalar = Finite real | PosInf | NegInf | NaN

primrec exponentFrom :: "nat \<Rightarrow> int \<Rightarrow> real \<Rightarrow> int" where
  "exponentFrom 0 e a = e"
| "exponentFrom (Suc fuel) e a =
     (if 2 powi (e + 1) \<le> a then exponentFrom fuel (e + 1) a else e)"

definition exponent :: "real \<Rightarrow> int" where
  "exponent r = exponentFrom 2045 (- 1022) \<bar>r\<bar>"

definition ulp :: "real \<Rightarrow> real" where
  "ulp r = 2 powi (exponent r - 52)"

definition roundHalfEven :: "real \<Rightarrow> int" where
  "roundHalfEven q =
     (if q - of_int \<lfloor>q\<rfloor> < 1 / 2 then \<lfloor>q\<rfloor>
      else if 1 / 2 < q - of_int \<lfloor>q\<rfloor> then \<lfloor>q\<rfloor> + 1
      else if even \<lfloor>q\<rfloor> then \<lfloor>q\<rfloor> else \<lfloor>q\<rfloor> + 1)"

definition roundToNearest :: "real \<Rightarrow> real" where
  "roundToNearest r = of_int (roundHalfEven (r / ulp r)) * ulp r"

definition fromReal :: "real \<Rightarrow> Scalar" where
  "fromReal r =
     (if 2 ^ 1024 \<le> roundToNearest r then PosInf
      else if roundToNearest r \<le> - (2 ^ 1024) then NegInf
      else Finite (roundToNearest r))"

text \<open>A scalar is a double when rounding leaves it as it is.\<close>

fun isDouble :: "Scalar \<Rightarrow> bool" where
  "isDouble (Finite r) = (fromReal r = Finite r)"
| "isDouble x = True"

fun isfinite :: "Scalar \<Rightarrow> bool" where
  "isfinite (Finite r) = True"
| "isfinite x = False"

fun scalarNeg :: "Scalar \<Rightarrow> Scalar" where
  "scalarNeg (Finite r) = Finite (- r)"
| "scalarNeg PosInf = NegInf"
| "scalarNeg NegInf = PosInf"
| "scalarNeg NaN = NaN"

fun scalarAdd :: "Scalar \<Rightarrow> Scalar \<Rightarrow> Scalar" where
  "scalarAdd (Finite a) (Finite b) = fromReal (a + b)"
| "scalarAdd NaN y = NaN"
| "scalarAdd x NaN = NaN"
| "scalarAdd PosInf NegInf = NaN"
| "scalarAdd NegInf PosInf = NaN"
| "scalarAdd PosInf y = PosInf"
| "scalarAdd x PosInf = PosInf"
| "scalarAdd NegInf y = NegInf"
| "scalarAdd x NegInf = NegInf"

definition scalarSub :: "Scalar \<Rightarrow> Scalar \<Rightarrow> Scalar" where
  "scalarSub x y = scalarAdd x (scalarNeg y)"

text \<open>The sign of a scalar that is not NaN, for the products with an infinity.\<close>

fun scalarSign :: "Scalar \<Rightarrow> int" where
  "scalarSign (Finite r) = (if r > 0 then 1 else if r < 0 then - 1 else 0)"
| "scalarSign PosInf = 1"
| "scalarSign NegInf = - 1"
| "scalarSign NaN = 0"

definition scalarMul :: "Scalar \<Rightarrow> Scalar \<Rightarrow> Scalar" where
  "scalarMul x y =
     (case (x, y) of
        (Finite a, Finite b) \<Rightarrow> fromReal (a * b)
      | _ \<Rightarrow> (if x = NaN \<or> y = NaN then NaN
              else if scalarSign x * scalarSign y > 0 then PosInf
              else if scalarSign x * scalarSign y < 0 then NegInf
              else NaN))"

fun scalarLess :: "Scalar \<Rightarrow> Scalar \<Rightarrow> bool" where
  "scalarLess (Finite a) (Finite b) = (a < b)"
| "scalarLess NaN y = False"
| "scalarLess x NaN = False"
| "scalarLess x NegInf = False"
| "scalarLess PosInf y = False"
| "scalarLess NegInf y = True"
| "scalarLess x PosInf = True"

text \<open>
  \<^verbatim>\<open>std::max(a, b)\<close> is \<^verbatim>\<open>(a < b) ? b : a\<close> and \<^verbatim>\<open>std::min(a, b)\<close> is
  \<^verbatim>\<open>(b < a) ? b : a\<close>.
\<close>

definition scalarMax :: "Scalar \<Rightarrow> Scalar \<Rightarrow> Scalar" where
  "scalarMax a b = (if scalarLess a b then b else a)"

definition scalarMin :: "Scalar \<Rightarrow> Scalar \<Rightarrow> Scalar" where
  "scalarMin a b = (if scalarLess b a then b else a)"

text \<open>
  \<^verbatim>\<open>two_norm2\<close> of a block vector adds up the \<^verbatim>\<open>two_norm2\<close> of its blocks, and
  that of a block adds up the squares of its entries, both starting from zero and in the
  order of the indices. Each square and each partial sum is rounded.
\<close>

definition blockTwoNorm2 :: "Scalar list \<Rightarrow> Scalar" where
  "blockTwoNorm2 block = foldl (\<lambda>sum x. scalarAdd sum (scalarMul x x)) (Finite 0) block"

definition two_norm2 :: "Scalar list list \<Rightarrow> Scalar" where
  "two_norm2 v = foldl (\<lambda>sum block. scalarAdd sum (blockTwoNorm2 block)) (Finite 0) v"

definition allFinite :: "Scalar list list \<Rightarrow> bool" where
  "allFinite v = list_all (list_all isfinite) v"

definition allDoubles :: "Scalar list list \<Rightarrow> bool" where
  "allDoubles v = list_all (list_all isDouble) v"

text \<open>The difference of two blocks, entry by entry, each difference rounded.\<close>

definition blockSub :: "Scalar list \<Rightarrow> Scalar list \<Rightarrow> Scalar list" where
  "blockSub u d = map2 scalarSub u d"

text \<open>
  What \<^verbatim>\<open>update_\<close> reads of the Newton method: the run-time parameter
  \<^verbatim>\<open>EnablePartialReassemble\<close>, \<^verbatim>\<open>tolerance_()\<close> and \<^verbatim>\<open>error_\<close> of the
  parent class, and the Jacobian assembler of the model. The assembler that this revision
  of the Newton method calls (\<^verbatim>\<open>updateDiscrepancy\<close> with two arguments) is not the
  one modelled above, so its state is a type parameter and its two methods are parameters
  of \<open>update_m\<close>.
\<close>

record 'asm newtonMethod =
  enablePartialReassemble :: bool
  tolerance_m :: Scalar
  error_m :: Scalar
  jacobianAssembler :: 'asm

record 'asm assemblerMethods =
  asmUpdateDiscrepancy :: "Scalar list list \<Rightarrow> Scalar list list \<Rightarrow> 'asm \<Rightarrow> 'asm"
  asmComputeColors :: "Scalar \<Rightarrow> 'asm \<Rightarrow> 'asm"

definition subtractDelta ::
  "Scalar list list \<Rightarrow> Scalar list list \<Rightarrow> Scalar list list \<Rightarrow> nat \<Rightarrow> Scalar list list" where
  "subtractDelta uLastIter deltaU uCurrentIter i =
     uCurrentIter[i := blockSub (uLastIter ! i) (deltaU ! i)]"

text \<open>
  \<open>update_m\<close> returns the exception, if one is thrown, with the solution vector
  \<^verbatim>\<open>uCurrentIter\<close> and the Newton method as the call leaves them. The literal
  \<^verbatim>\<open>1e-4\<close> is the double nearest to \<open>1/10000\<close>.
\<close>

definition update_m ::
  "'asm assemblerMethods \<Rightarrow> 'asm newtonMethod \<Rightarrow> Scalar list list \<Rightarrow> Scalar list list \<Rightarrow>
   Scalar list list \<Rightarrow> error option \<times> Scalar list list \<times> 'asm newtonMethod" where
  "update_m asm nm uCurrentIter uLastIter deltaU =
     (if \<not> isfinite (two_norm2 deltaU) then (Some NumericalProblem, uCurrentIter, nm)
      else (let nm1 =
                  (if enablePartialReassemble nm
                   then (let minReasmTol = scalarMul (Finite 10) (tolerance_m nm);
                             maxReasmTol = fromReal (1 / 10000);
                             reassembleTol0 = scalarMul (error_m nm) (error_m nm);
                             reassembleTol =
                               scalarMax minReasmTol (scalarMin maxReasmTol reassembleTol0)
                         in nm\<lparr>jacobianAssembler :=
                                 asmComputeColors asm reassembleTol
                                   (asmUpdateDiscrepancy asm uLastIter deltaU (jacobianAssembler nm))\<rparr>)
                   else nm)
            in (None, foldl (subtractDelta uLastIter deltaU) uCurrentIter [0..<length uLastIter], nm1)))"

text \<open>
  A Newton method whose assembler has no state, with partial reassembly enabled, the
  tolerance \<^verbatim>\<open>1e-8\<close> and the error \<^verbatim>\<open>1e-2\<close> of the last iteration.
\<close>

definition noAssembler :: "unit assemblerMethods" where
  "noAssembler = \<lparr>asmUpdateDiscrepancy = (\<lambda>_ _ a. a), asmComputeColors = (\<lambda>_ a. a)\<rparr>"

definition someNewton :: "unit newtonMethod" where
  "someNewton = \<lparr>enablePartialReassemble = True, tolerance_m = fromReal (1 / 100000000),
     error_m = fromReal (1 / 100), jacobianAssembler = ()\<rparr>"

section \<open>Several processes\<close>

text \<open>
  The colours as ordinals: \<^verbatim>\<open>Red = 0\<close>, \<^verbatim>\<open>Yellow = 1\<close>, \<^verbatim>\<open>Orange = 2\<close>,
  \<^verbatim>\<open>Green = 3\<close>.
\<close>

fun colorValue :: "EntityColor \<Rightarrow> nat" where
  "colorValue Red = 0"
| "colorValue Yellow = 1"
| "colorValue Orange = 2"
| "colorValue Green = 3"

text \<open>
  Modelled from the spec: the communication handles that
  \<^verbatim>\<open>GridCommHandleFactory::minHandle\<close> and \<^verbatim>\<open>maxHandle\<close> create are not among
  the sources. The spec has them exchange the colour codes of the degrees of freedom
  shared at a partition border and reduce them as ordinals: each process sends the colour
  of every border degree of freedom to the other processes that share it, and replaces
  its own colour by the minimum (maximum) of its own and each colour it receives.

  A process is its problem, its assembler and, for each of its degrees of freedom, the
  border entity it sits on, if any; two degrees of freedom of two processes are shared
  when they sit on the same border entity.
\<close>

record 'a process =
  problemOf :: "'a problem"
  assemblerOf :: "'a assembler"
  borderEntity :: "nat \<Rightarrow> nat option"

definition colorMin :: "EntityColor \<Rightarrow> EntityColor \<Rightarrow> EntityColor" where
  "colorMin mine received = (if colorValue received < colorValue mine then received else mine)"

definition colorMax :: "EntityColor \<Rightarrow> EntityColor \<Rightarrow> EntityColor" where
  "colorMax mine received = (if colorValue mine < colorValue received then received else mine)"

definition sentFor :: "'a process \<Rightarrow> nat \<Rightarrow> EntityColor list" where
  "sentFor q entity =
     map (\<lambda>j. dofColor_m (assemblerOf q) ! j)
       (filter (\<lambda>j. borderEntity q j = Some entity) [0..<length (dofColor_m (assemblerOf q))])"

definition receivedFor :: "'a process list \<Rightarrow> nat \<Rightarrow> nat \<Rightarrow> EntityColor list" where
  "receivedFor procs rank i =
     (case borderEntity (procs ! rank) i of
        None \<Rightarrow> []
      | Some entity \<Rightarrow>
          concat (map (\<lambda>q. if q = rank then [] else sentFor (procs ! q) entity) [0..<length procs]))"

definition exchangeColors ::
  "(EntityColor \<Rightarrow> EntityColor \<Rightarrow> EntityColor) \<Rightarrow> 'a process list \<Rightarrow> 'a process list" where
  "exchangeColors reduce procs =
     map (\<lambda>rank.
            (procs ! rank)\<lparr>assemblerOf :=
               (assemblerOf (procs ! rank))\<lparr>dofColor_m :=
                  map (\<lambda>i. foldl reduce (dofColor_m (assemblerOf (procs ! rank)) ! i)
                              (receivedFor procs rank i))
                    [0..<length (dofColor_m (assemblerOf (procs ! rank)))]\<rparr>\<rparr>)
       [0..<length procs]"

definition onEachProcess ::
  "('a problem \<Rightarrow> 'a assembler \<Rightarrow> 'a assembler) \<Rightarrow> 'a process list \<Rightarrow> 'a process list" where
  "onEachProcess f procs = map (\<lambda>p. p\<lparr>assemblerOf := f (problemOf p) (assemblerOf p)\<rparr>) procs"

text \<open>
  \<^verbatim>\<open>computeColors\<close> on all processes at once, with the two exchanges between the
  three pieces of local work. The run-time parameter is the same on all processes; where
  it is disabled every process returns at once.
\<close>

definition computeColorsParallel :: "'a::{zero,ord} \<Rightarrow> 'a process list \<Rightarrow> 'a process list" where
  "computeColorsParallel tolerance procs =
     (if list_ex (\<lambda>p. \<not> enablePartialRelinearization (problemOf p)) procs then procs
      else onEachProcess (\<lambda>P. promoteOrangeDofs)
             (exchangeColors colorMax
                (onEachProcess colorsBeforeMaxExchange
                   (exchangeColors colorMin
                      (onEachProcess (\<lambda>P. colorsBeforeMinExchange P tolerance) procs)))))"

text \<open>
  Two chains on two processes: degree of freedom 3 of the first and degree of freedom 0 of
  the second sit on the same border entity.
\<close>

definition twoChains :: "real process list" where
  "twoChains =
     [\<lparr>problemOf = chainProblem, assemblerOf = chainState [0, 0, 0, 1],
       borderEntity = (\<lambda>i. if i = 3 then Some 0 else None)\<rparr>,
      \<lparr>problemOf = chainProblem, assemblerOf = chainState [0, 0, 0, 0],
       borderEntity = (\<lambda>i. if i = 0 then Some 0 else None)\<rparr>]"

section \<open>Properties\<close>

subsection \<open>Loops\<close>

lemma foldl_invariant:
  assumes "Q s" and "\<And>t x. Q t \<Longrightarrow> x \<in> set xs \<Longrightarrow> Q (f t x)"
  shows "Q (foldl f s xs)"
  using assms by (induction xs arbitrary: s) auto

lemma nth_list_update_same_value: "xs ! i = c \<Longrightarrow> xs[k := c] ! i = c"
  by (cases "k < length xs") (auto simp: nth_list_update list_update_beyond)

lemma nth_list_update_full:
  "xs[k := v] ! i = (if i = k \<and> k < length xs then v else xs ! i)"
  by (cases "k < length xs") (auto simp: nth_list_update list_update_beyond)

subsection \<open>The loops of computeColors\<close>

lemma colorDofByError_step:
  "length (dofColor_m (colorDofByError tol s k)) = length (dofColor_m s)"
  "dofColor_m s ! i = Red \<Longrightarrow> dofColor_m (colorDofByError tol s k) ! i = Red"
  "dofError_m (colorDofByError tol s k) = dofError_m s"
  "k < length (dofColor_m s) \<Longrightarrow> dofError_m s ! k > tol \<Longrightarrow> dofColor_m (colorDofByError tol s k) ! k = Red"
  by (auto simp: colorDofByError_def nth_list_update_same_value)

lemma markRedDofs_loop:
  "length (dofColor_m (foldl (colorDofByError tol) s [0..<n])) = length (dofColor_m s) \<and>
   dofError_m (foldl (colorDofByError tol) s [0..<n]) = dofError_m s \<and>
   (\<forall>i < length (dofColor_m s). (dofColor_m s ! i = Red \<or> (i < n \<and> dofError_m s ! i > tol)) \<longrightarrow>
        dofColor_m (foldl (colorDofByError tol) s [0..<n]) ! i = Red)"
proof (induction n)
  case 0
  then show ?case by simp
next
  case (Suc n)
  let ?t = "foldl (colorDofByError tol) s [0..<n]"
  have unfold: "foldl (colorDofByError tol) s [0..<Suc n] = colorDofByError tol ?t n"
    by simp
  show ?case
    unfolding unfold using Suc colorDofByError_step[where s = ?t and k = n and tol = tol]
    by (auto simp: less_Suc_eq)
qed

lemma foldl_upt_Suc: "foldl f s [0..<Suc n] = f (foldl f s [0..<n]) n"
  by simp

lemma markRedDofs_props:
  "length (dofColor_m (markRedDofs tol s)) = length (dofColor_m s)"
  "dofError_m (markRedDofs tol s) = dofError_m s"
  "elementColor_m (markRedDofs tol s) = elementColor_m s"
  "i < length (dofColor_m s) \<Longrightarrow> dofColor_m s ! i = Red \<or> dofError_m s ! i > tol \<Longrightarrow>
     dofColor_m (markRedDofs tol s) ! i = Red"
proof -
  let ?s0 = "s\<lparr>nextRelinearizationAccuracy_m := 0\<rparr>"
  show "length (dofColor_m (markRedDofs tol s)) = length (dofColor_m s)"
    using markRedDofs_loop[of tol ?s0 "length (dofColor_m s)"] by (simp add: markRedDofs_def)
  show "dofError_m (markRedDofs tol s) = dofError_m s"
    using markRedDofs_loop[of tol ?s0 "length (dofColor_m s)"] by (simp add: markRedDofs_def)
  show "elementColor_m (markRedDofs tol s) = elementColor_m s"
    unfolding markRedDofs_def
    by (rule foldl_invariant[where Q = "\<lambda>t. elementColor_m t = elementColor_m s"])
       (auto simp: colorDofByError_def)
  show "i < length (dofColor_m s) \<Longrightarrow> dofColor_m s ! i = Red \<or> dofError_m s ! i > tol \<Longrightarrow>
     dofColor_m (markRedDofs tol s) ! i = Red"
    using markRedDofs_loop[of tol ?s0 "length (dofColor_m s)"] by (auto simp add: markRedDofs_def)
qed

lemma stencilHasColor_cong:
  "dofColor_m t = dofColor_m s \<Longrightarrow> stencilHasColor t e c = stencilHasColor s e c"
  by (simp add: stencilHasColor_def)

lemma markRedElements_loop:
  "n \<le> length (elementColor_m s) \<Longrightarrow>
   dofColor_m (foldl (markRedElement P) s [0..<n]) = dofColor_m s \<and>
   dofError_m (foldl (markRedElement P) s [0..<n]) = dofError_m s \<and>
   length (elementColor_m (foldl (markRedElement P) s [0..<n])) = length (elementColor_m s) \<and>
   (\<forall>k < length (elementColor_m s).
      elementColor_m (foldl (markRedElement P) s [0..<n]) ! k =
        (if k < n then (if stencilHasColor s (gridElements P ! k) Red then Red else Green)
         else elementColor_m s ! k))"
proof (induction n)
  case 0
  then show ?case by simp
next
  case (Suc n)
  let ?t = "foldl (markRedElement P) s [0..<n]"
  from Suc have IH: "dofColor_m ?t = dofColor_m s" "dofError_m ?t = dofError_m s"
    "length (elementColor_m ?t) = length (elementColor_m s)"
    "\<forall>k < length (elementColor_m s). elementColor_m ?t ! k =
        (if k < n then (if stencilHasColor s (gridElements P ! k) Red then Red else Green)
         else elementColor_m s ! k)"
    by auto
  have sh: "\<And>e c. stencilHasColor ?t e c = stencilHasColor s e c"
    using IH(1) by (rule stencilHasColor_cong)
  show ?case
    unfolding foldl_upt_Suc using IH Suc.prems
    by (auto simp: markRedElement_def sh Let_def nth_list_update less_Suc_eq)
qed

lemma markRedElements_props:
  assumes "length (elementColor_m s) = length (gridElements P)"
  shows "dofColor_m (markRedElements P s) = dofColor_m s"
    and "dofError_m (markRedElements P s) = dofError_m s"
    and "length (elementColor_m (markRedElements P s)) = length (elementColor_m s)"
    and "k < length (gridElements P) \<Longrightarrow> elementColor_m (markRedElements P s) ! k =
           (if stencilHasColor s (gridElements P ! k) Red then Red else Green)"
  using markRedElements_loop[of "length (gridElements P)" s P] assms
  by (auto simp: markRedElements_def)

lemma orangeStep_refl: "orangeStep s s"
  by (simp add: orangeStep_def)

lemma orangeStep_trans: "orangeStep s t \<Longrightarrow> orangeStep t u \<Longrightarrow> orangeStep s u"
  unfolding orangeStep_def by metis

lemma orangeStep_nth:
  "orangeStep s t \<Longrightarrow>
     dofColor_m t ! i = dofColor_m s ! i \<or> (dofColor_m s ! i \<noteq> Red \<and> dofColor_m t ! i = Orange)"
  by (simp add: orangeStep_def)

lemma orangeStep_red_iff: "orangeStep s t \<Longrightarrow> dofColor_m t ! i = Red \<longleftrightarrow> dofColor_m s ! i = Red"
  using orangeStep_nth[of s t i] by auto

lemma orangeStep_tint: "orangeStep s (tintDofOrange s g)"
  by (auto simp: orangeStep_def tintDofOrange_def nth_list_update_full)

lemma orangeStep_stencil: "orangeStep s (foldl tintDofOrange s gs)"
  by (rule foldl_invariant[where Q = "orangeStep s"])
     (auto intro: orangeStep_refl orangeStep_trans orangeStep_tint)

lemma orangeStep_markOrangeDofs: "orangeStep s (markOrangeDofs P s)"
  unfolding markOrangeDofs_def
  by (rule foldl_invariant[where Q = "orangeStep s"])
     (auto simp: markOrangeDofsOf_def intro: orangeStep_refl orangeStep_trans orangeStep_stencil)

lemma markYellowElements_loop:
  "n \<le> length (elementColor_m s) \<Longrightarrow>
   dofColor_m (foldl (markYellowElement P) s [0..<n]) = dofColor_m s \<and>
   dofError_m (foldl (markYellowElement P) s [0..<n]) = dofError_m s \<and>
   length (elementColor_m (foldl (markYellowElement P) s [0..<n])) = length (elementColor_m s) \<and>
   (\<forall>k < length (elementColor_m s).
      elementColor_m (foldl (markYellowElement P) s [0..<n]) ! k =
        (if k < n \<and> elementColor_m s ! k \<noteq> Red \<and> stencilHasColor s (gridElements P ! k) Orange
         then Yellow else elementColor_m s ! k))"
proof (induction n)
  case 0
  then show ?case by simp
next
  case (Suc n)
  let ?t = "foldl (markYellowElement P) s [0..<n]"
  from Suc have IH: "dofColor_m ?t = dofColor_m s" "dofError_m ?t = dofError_m s"
    "length (elementColor_m ?t) = length (elementColor_m s)"
    "\<forall>k < length (elementColor_m s). elementColor_m ?t ! k =
        (if k < n \<and> elementColor_m s ! k \<noteq> Red \<and> stencilHasColor s (gridElements P ! k) Orange
         then Yellow else elementColor_m s ! k)"
    by auto
  have sh: "\<And>e c. stencilHasColor ?t e c = stencilHasColor s e c"
    using IH(1) by (rule stencilHasColor_cong)
  show ?case
    unfolding foldl_upt_Suc using IH Suc.prems
    by (auto simp: markYellowElement_def sh Let_def nth_list_update less_Suc_eq)
qed

lemma markYellowElements_props:
  assumes "length (elementColor_m s) = length (gridElements P)"
  shows "dofColor_m (markYellowElements P s) = dofColor_m s"
    and "dofError_m (markYellowElements P s) = dofError_m s"
    and "length (elementColor_m (markYellowElements P s)) = length (elementColor_m s)"
    and "k < length (gridElements P) \<Longrightarrow> elementColor_m (markYellowElements P s) ! k =
        (if elementColor_m s ! k \<noteq> Red \<and> stencilHasColor s (gridElements P ! k) Orange
         then Yellow else elementColor_m s ! k)"
  using markYellowElements_loop[of "length (gridElements P)" s P] assms
  by (auto simp: markYellowElements_def)

lemma demoteStep_refl: "demoteStep s s"
  by (simp add: demoteStep_def)

lemma demoteStep_trans: "demoteStep s t \<Longrightarrow> demoteStep t u \<Longrightarrow> demoteStep s u"
  unfolding demoteStep_def by (metis EntityColor.distinct(7))

lemma demoteStep_nth:
  "demoteStep s t \<Longrightarrow>
     dofColor_m t ! i = dofColor_m s ! i \<or> (dofColor_m s ! i = Orange \<and> dofColor_m t ! i = Yellow)"
  by (simp add: demoteStep_def)

lemma demoteStep_red_iff: "demoteStep s t \<Longrightarrow> dofColor_m t ! i = Red \<longleftrightarrow> dofColor_m s ! i = Red"
  using demoteStep_nth[of s t i] by auto

lemma demoteStep_dof: "demoteStep s (demoteDof s g)"
  by (auto simp: demoteStep_def demoteDof_def nth_list_update_full)

lemma demoteStep_stencil: "demoteStep s (foldl demoteDof s gs)"
  by (rule foldl_invariant[where Q = "demoteStep s"])
     (auto intro: demoteStep_refl demoteStep_trans demoteStep_dof)

lemma demoteStep_demoteOrangeDofs: "demoteStep s (demoteOrangeDofs P s)"
  unfolding demoteOrangeDofs_def
  by (rule foldl_invariant[where Q = "demoteStep s"])
     (auto simp: demoteOrangeDofsOf_def intro: demoteStep_refl demoteStep_trans demoteStep_stencil)

lemma promoteOrangeDofs_loop:
  "n \<le> length (dofColor_m s) \<Longrightarrow>
   elementColor_m (foldl promoteDof s [0..<n]) = elementColor_m s \<and>
   length (dofColor_m (foldl promoteDof s [0..<n])) = length (dofColor_m s) \<and>
   (\<forall>i < length (dofColor_m s).
      dofColor_m (foldl promoteDof s [0..<n]) ! i =
        (if i < n \<and> dofColor_m s ! i \<noteq> Green \<and> dofColor_m s ! i \<noteq> Yellow then Red
         else dofColor_m s ! i))"
proof (induction n)
  case 0
  then show ?case by simp
next
  case (Suc n)
  let ?t = "foldl promoteDof s [0..<n]"
  from Suc have IH: "elementColor_m ?t = elementColor_m s"
    "length (dofColor_m ?t) = length (dofColor_m s)"
    "\<forall>i < length (dofColor_m s). dofColor_m ?t ! i =
        (if i < n \<and> dofColor_m s ! i \<noteq> Green \<and> dofColor_m s ! i \<noteq> Yellow then Red
         else dofColor_m s ! i)"
    by auto
  show ?case
    unfolding foldl_upt_Suc using IH Suc.prems
    by (auto simp: promoteDof_def nth_list_update less_Suc_eq)
qed

lemma promoteOrangeDofs_props:
  shows "elementColor_m (promoteOrangeDofs s) = elementColor_m s"
    and "length (dofColor_m (promoteOrangeDofs s)) = length (dofColor_m s)"
    and "i < length (dofColor_m s) \<Longrightarrow> dofColor_m (promoteOrangeDofs s) ! i =
        (if dofColor_m s ! i \<noteq> Green \<and> dofColor_m s ! i \<noteq> Yellow then Red else dofColor_m s ! i)"
  using promoteOrangeDofs_loop[of "length (dofColor_m s)" s]
  by (auto simp: promoteOrangeDofs_def)

subsection \<open>The chain, evaluated\<close>

lemmas computeColors_defs = computeColors_def colorsBeforeMinExchange_def colorsBeforeMaxExchange_def
  markRedDofs_def colorDofByError_def markRedElements_def markRedElement_def stencilHasColor_def
  markOrangeDofs_def markOrangeDofsOf_def tintDofOrange_def markYellowElements_def markYellowElement_def
  demoteOrangeDofs_def demoteOrangeDofsOf_def demoteDof_def promoteOrangeDofs_def promoteDof_def
  stdMax_def

lemma upt_small: "[0..<4] = [0,1,2,3]" "[0..<3] = [0,1,2]" "[0..<2] = [0,1]"
  by (simp_all add: upt_rec)

lemma chain_dof_colors: "dofColor_m (computeColors chainProblem (1/2) (chainState [1, 0, 0, 0])) = [Red, Red, Green, Green]"
  by (simp add: computeColors_defs chainProblem_def chainState_def chainAssembled_def upt_small Let_def)

lemma chain_element_colors: "elementColor_m (computeColors chainProblem (1/2) (chainState [1, 0, 0, 0])) = [Red, Yellow, Green]"
  by (simp add: computeColors_defs chainProblem_def chainState_def chainAssembled_def upt_small Let_def)

lemma chain_wf: "enablePartialRelinearization chainProblem" "stencilsInRange chainProblem"
  "sizedAsInit chainProblem (chainState errs) \<longleftrightarrow> length errs = 4"
  by (auto simp: chainProblem_def chainState_def chainAssembled_def stencilsInRange_def sizedAsInit_def)

lemma markRedElements_dofColor: "dofColor_m (markRedElements P s) = dofColor_m s"
  unfolding markRedElements_def
  by (rule foldl_invariant[where Q = "\<lambda>t. dofColor_m t = dofColor_m s"])
     (auto simp: markRedElement_def Let_def)

lemma markYellowElements_dofColor: "dofColor_m (markYellowElements P s) = dofColor_m s"
  unfolding markYellowElements_def
  by (rule foldl_invariant[where Q = "\<lambda>t. dofColor_m t = dofColor_m s"])
     (auto simp: markYellowElement_def Let_def)

lemma computeColors_keeps_red:
  assumes "i < length (dofColor_m s)"
    and "dofColor_m s ! i = Red \<or> dofError_m s ! i > tolerance"
  shows "dofColor_m (promoteOrangeDofs (colorsBeforeMaxExchange P (colorsBeforeMinExchange P tolerance s))) ! i = Red"
proof -
  let ?S1 = "markRedDofs tolerance s"
  let ?S2 = "markRedElements P ?S1"
  let ?S3 = "markOrangeDofs P ?S2"
  let ?S4 = "markYellowElements P ?S3"
  let ?S5 = "demoteOrangeDofs P ?S4"
  have l1: "length (dofColor_m ?S1) = length (dofColor_m s)" and r1: "dofColor_m ?S1 ! i = Red"
    using assms markRedDofs_props(1)[of tolerance s] markRedDofs_props(4)[of i s tolerance] by auto
  have d2: "dofColor_m ?S2 = dofColor_m ?S1" by (rule markRedElements_dofColor)
  have o3: "orangeStep ?S2 ?S3" by (rule orangeStep_markOrangeDofs)
  have d4: "dofColor_m ?S4 = dofColor_m ?S3" by (rule markYellowElements_dofColor)
  have o5: "demoteStep ?S4 ?S5" by (rule demoteStep_demoteOrangeDofs)
  have r3: "dofColor_m ?S3 ! i = Red" and l3: "length (dofColor_m ?S3) = length (dofColor_m s)"
    using o3 r1 d2 l1 orangeStep_red_iff[OF o3, of i] by (auto simp: orangeStep_def)
  have r5: "dofColor_m ?S5 ! i = Red" and l5: "length (dofColor_m ?S5) = length (dofColor_m s)"
    using o5 r3 l3 d4 demoteStep_red_iff[OF o5, of i] by (auto simp: demoteStep_def)
  show ?thesis
    using promoteOrangeDofs_props(3)[of i ?S5] r5 l5 assms(1)
    by (simp add: colorsBeforeMinExchange_def colorsBeforeMaxExchange_def)
qed

subsection \<open>Propagation to elements\<close>

lemma stencilHasColor_iff:
  "stencilHasColor s e c \<longleftrightarrow> (\<exists>g \<in> set (stencilDofs e). dofColor_m s ! g = c)"
  by (simp add: stencilHasColor_def list_ex_iff)

lemma computeColors_closure:
  fixes tolerance :: "'a::{zero,ord}" and s :: "'a assembler" and P :: "'a problem"
  assumes len: "length (elementColor_m s) = length (gridElements P)"
    and k: "k < length (gridElements P)"
    and rng: "\<forall>g \<in> set (stencilDofs (gridElements P ! k)). g < length (dofColor_m s)"
  defines "F \<equiv> promoteOrangeDofs (colorsBeforeMaxExchange P (colorsBeforeMinExchange P tolerance s))"
  shows "(\<exists>g \<in> set (stencilDofs (gridElements P ! k)). dofColor_m s ! g = Red \<or> dofError_m s ! g > tolerance)
           \<Longrightarrow> elementColor_m F ! k = Red"
    and "elementColor_m F ! k = Green \<Longrightarrow> g \<in> set (stencilDofs (gridElements P ! k)) \<Longrightarrow> dofColor_m F ! g \<noteq> Red"
    and "elementColor_m F ! k = Red \<or> elementColor_m F ! k = Yellow \<or> elementColor_m F ! k = Green"
proof -
  let ?e = "gridElements P ! k"
  let ?S1 = "markRedDofs tolerance s"
  let ?S2 = "markRedElements P ?S1"
  let ?S3 = "markOrangeDofs P ?S2"
  let ?S4 = "markYellowElements P ?S3"
  let ?S5 = "demoteOrangeDofs P ?S4"
  have F: "F = promoteOrangeDofs ?S5"
    by (simp add: F_def colorsBeforeMinExchange_def colorsBeforeMaxExchange_def)
  have e1: "elementColor_m ?S1 = elementColor_m s" by (rule markRedDofs_props)
  have len1: "length (elementColor_m ?S1) = length (gridElements P)" using e1 len by simp
  have e2: "elementColor_m ?S2 ! k = (if stencilHasColor ?S1 ?e Red then Red else Green)"
    using markRedElements_props(4)[OF len1 k] .
  have len2: "length (elementColor_m ?S2) = length (gridElements P)"
    using markRedElements_props(3)[OF len1] len1 by simp
  have d2: "dofColor_m ?S2 = dofColor_m ?S1" by (rule markRedElements_dofColor)
  have o3: "orangeStep ?S2 ?S3" by (rule orangeStep_markOrangeDofs)
  have e3: "elementColor_m ?S3 = elementColor_m ?S2" using o3 by (simp add: orangeStep_def)
  have len3: "length (elementColor_m ?S3) = length (gridElements P)" using e3 len2 by simp
  have e4: "elementColor_m ?S4 ! k =
      (if elementColor_m ?S3 ! k \<noteq> Red \<and> stencilHasColor ?S3 ?e Orange then Yellow
       else elementColor_m ?S3 ! k)"
    using markYellowElements_props(4)[OF len3 k] .
  have d4: "dofColor_m ?S4 = dofColor_m ?S3" by (rule markYellowElements_dofColor)
  have o5: "demoteStep ?S4 ?S5" by (rule demoteStep_demoteOrangeDofs)
  have e5: "elementColor_m ?S5 = elementColor_m ?S4" using o5 by (simp add: demoteStep_def)
  have eF: "elementColor_m F = elementColor_m ?S5" unfolding F by (rule promoteOrangeDofs_props)
  have eFk: "elementColor_m F ! k =
      (if stencilHasColor ?S1 ?e Red then Red
       else if stencilHasColor ?S3 ?e Orange then Yellow else Green)"
    using eF e5 e4 e3 e2 by simp
  show "elementColor_m F ! k = Red \<or> elementColor_m F ! k = Yellow \<or> elementColor_m F ! k = Green"
    using eFk by simp
  have l1: "length (dofColor_m ?S1) = length (dofColor_m s)" by (rule markRedDofs_props)
  have l3: "length (dofColor_m ?S3) = length (dofColor_m s)"
    using o3 d2 l1 by (simp add: orangeStep_def)
  have l5: "length (dofColor_m ?S5) = length (dofColor_m s)"
    using o5 d4 l3 by (simp add: demoteStep_def)
  {
    assume "\<exists>g \<in> set (stencilDofs ?e). dofColor_m s ! g = Red \<or> dofError_m s ! g > tolerance"
    then obtain g where g: "g \<in> set (stencilDofs ?e)"
      and c: "dofColor_m s ! g = Red \<or> dofError_m s ! g > tolerance" by blast
    have "g < length (dofColor_m s)" using rng g by blast
    then have "dofColor_m ?S1 ! g = Red" using c markRedDofs_props(4)[of g s tolerance] by blast
    then have "stencilHasColor ?S1 ?e Red" using g by (auto simp: stencilHasColor_iff)
    then show "elementColor_m F ! k = Red" using eFk by simp
  }
  {
    assume green: "elementColor_m F ! k = Green" and g: "g \<in> set (stencilDofs ?e)"
    have nr: "\<not> stencilHasColor ?S1 ?e Red" and no: "\<not> stencilHasColor ?S3 ?e Orange"
      using green eFk by (auto split: if_splits)
    have g1: "dofColor_m ?S1 ! g \<noteq> Red" using nr g by (auto simp: stencilHasColor_iff)
    have g3r: "dofColor_m ?S3 ! g \<noteq> Red" using orangeStep_red_iff[OF o3, of g] g1 d2 by simp
    have g3o: "dofColor_m ?S3 ! g \<noteq> Orange" using no g by (auto simp: stencilHasColor_iff)
    have g5: "dofColor_m ?S5 ! g = dofColor_m ?S3 ! g"
      using demoteStep_nth[OF o5, of g] g3o d4 by simp
    have gl: "g < length (dofColor_m ?S5)" using rng g l5 by simp
    have "dofColor_m F ! g = (if dofColor_m ?S5 ! g \<noteq> Green \<and> dofColor_m ?S5 ! g \<noteq> Yellow then Red
             else dofColor_m ?S5 ! g)"
      unfolding F using promoteOrangeDofs_props(3)[OF gl] .
    then show "dofColor_m F ! g \<noteq> Red" using g5 g3r g3o by (cases "dofColor_m ?S3 ! g") auto
  }
qed

text \<open>
  Claim C3, as the code has it. After \<^verbatim>\<open>computeColors(tolerance)\<close> on one
  process, with partial relinearization enabled: an element whose stencil holds a degree of
  freedom that was red at the call or whose error is above the tolerance is red; an element
  whose stencil holds a red degree of freedom is red or yellow; and no degree of freedom
  of a green element is red. An element next to a red element is yellow, and the orange
  degree of freedom it shares with the red element is promoted to red by the last loop, so
  a yellow element does hold a red degree of freedom.
\<close>

theorem computeColors_propagation_closure:
  fixes tolerance :: "'a::{zero,ord}" and s :: "'a assembler" and P :: "'a problem"
  assumes "enablePartialRelinearization P"
    and "sizedAsInit P s"
    and "stencilsInRange P"
    and "k < length (gridElements P)"
  shows "((\<exists>g \<in> set (stencilDofs (gridElements P ! k)).
             dofColor_m s ! g = Red \<or> dofError_m s ! g > tolerance) \<longrightarrow>
            elementColor P (computeColors P tolerance s) k = Red) \<and>
         (stencilHasColor (computeColors P tolerance s) (gridElements P ! k) Red \<longrightarrow>
            elementColor P (computeColors P tolerance s) k = Red \<or>
            elementColor P (computeColors P tolerance s) k = Yellow) \<and>
         (elementColor P (computeColors P tolerance s) k = Green \<longrightarrow>
            (\<forall>g \<in> set (stencilDofs (gridElements P ! k)).
               dofColor P (computeColors P tolerance s) g \<noteq> Red))"
proof -
  let ?F = "promoteOrangeDofs (colorsBeforeMaxExchange P (colorsBeforeMinExchange P tolerance s))"
  have cc: "computeColors P tolerance s = ?F"
    using assms(1) by (simp add: computeColors_def)
  have len: "length (elementColor_m s) = length (gridElements P)"
    and dl: "length (dofColor_m s) = numDof P"
    using assms(1,2) by (auto simp: sizedAsInit_def)
  have "gridElements P ! k \<in> set (gridElements P)" using assms(4) by simp
  then have rng: "\<forall>g \<in> set (stencilDofs (gridElements P ! k)). g < length (dofColor_m s)"
    using assms(3) dl by (auto simp: stencilsInRange_def)
  note cl = computeColors_closure[OF len assms(4) rng, of tolerance]
  have a: "(\<exists>g \<in> set (stencilDofs (gridElements P ! k)).
             dofColor_m s ! g = Red \<or> dofError_m s ! g > tolerance) \<longrightarrow>
            elementColor_m ?F ! k = Red"
    using cl(1) by blast
  have c: "elementColor_m ?F ! k = Green \<longrightarrow>
            (\<forall>g \<in> set (stencilDofs (gridElements P ! k)). dofColor_m ?F ! g \<noteq> Red)"
    using cl(2) by blast
  have b: "stencilHasColor ?F (gridElements P ! k) Red \<longrightarrow>
            elementColor_m ?F ! k = Red \<or> elementColor_m ?F ! k = Yellow"
    using c cl(3) by (auto simp: stencilHasColor_iff)
  show ?thesis
    unfolding cc using a b c assms(1) by (simp add: elementColor_def dofColor_def)
qed

text \<open>
  On the chain with errors \<open>1, 0, 0, 0\<close> and tolerance \<open>1/2\<close>: element 0 holds
  the degree of freedom above the tolerance and is red, element 2 is green and its degrees
  of freedom 2 and 3 are not red.
\<close>

theorem computeColors_propagation_closure_witness:
  "enablePartialRelinearization chainProblem \<and>
   sizedAsInit chainProblem (chainState [1, 0, 0, 0]) \<and>
   stencilsInRange chainProblem \<and>
   2 < length (gridElements chainProblem) \<and>
   dofError_m (chainState [1, 0, 0, 0]) ! 0 > 1 / 2 \<and>
   elementColor chainProblem (computeColors chainProblem (1 / 2) (chainState [1, 0, 0, 0])) 0 = Red \<and>
   elementColor chainProblem (computeColors chainProblem (1 / 2) (chainState [1, 0, 0, 0])) 2 = Green \<and>
   dofColor chainProblem (computeColors chainProblem (1 / 2) (chainState [1, 0, 0, 0])) 2 \<noteq> Red \<and>
   dofColor chainProblem (computeColors chainProblem (1 / 2) (chainState [1, 0, 0, 0])) 3 \<noteq> Red"
  using computeColors_propagation_closure[of chainProblem "chainState [1, 0, 0, 0]" 0 "1 / 2"]
    computeColors_propagation_closure[of chainProblem "chainState [1, 0, 0, 0]" 2 "1 / 2"]
    chain_element_colors
  by (simp add: chain_wf elementColor_def) (simp add: chainProblem_def chainState_def chainAssembled_def)

text \<open>
  The same run refutes the first half of claim C3 as stated: element 1 holds the red
  degree of freedom 1 and is yellow, not red.
\<close>

theorem computeColors_red_dof_in_yellow_element:
  "enablePartialRelinearization chainProblem \<and>
   sizedAsInit chainProblem (chainState [1, 0, 0, 0]) \<and>
   stencilsInRange chainProblem \<and>
   stencilHasColor (computeColors chainProblem (1 / 2) (chainState [1, 0, 0, 0]))
     (gridElements chainProblem ! 1) Red \<and>
   elementColor chainProblem (computeColors chainProblem (1 / 2) (chainState [1, 0, 0, 0])) 1 = Yellow \<and>
   elementColor chainProblem (computeColors chainProblem (1 / 2) (chainState [1, 0, 0, 0])) 1 \<noteq> Red"
  using chain_dof_colors chain_element_colors
  by (simp add: chain_wf elementColor_def stencilHasColor_def) (simp add: chainProblem_def)

subsection \<open>The recycling path\<close>

lemma recycle_loop:
  fixes s :: "'a::{one,uminus,plus,minus,times,inverse} assembler" and curDt :: 'a and n :: nat
  assumes "n \<le> length (storageJacobian_m s)" "n \<le> length (residual_m s)"
  defines "t \<equiv> foldl (recycleDof curDt) s [0..<n]"
  shows "storageTerm_m t = storageTerm_m s \<and> oldDt_m t = oldDt_m s \<and>
         dofColor_m t = dofColor_m s \<and> elementColor_m t = elementColor_m s \<and>
         nextRelinearizationAccuracy_m t = nextRelinearizationAccuracy_m s \<and>
         relinearizationAccuracy_m t = relinearizationAccuracy_m s \<and>
         reuseLinearization_m t = reuseLinearization_m s \<and>
         length (storageJacobian_m t) = length (storageJacobian_m s) \<and>
         length (residual_m t) = length (residual_m s) \<and>
         (\<forall>i j. matrix_m t i j = (if i = j \<and> i < n then recycledBlock s curDt i else matrix_m s i j)) \<and>
         (\<forall>i < length (storageJacobian_m s). storageJacobian_m t ! i =
            (if i < n then matScale (storageJacobian_m s ! i) (oldDt_m s / curDt) else storageJacobian_m s ! i)) \<and>
         (\<forall>i < length (residual_m s). residual_m t ! i =
            (if i < n then vecScale (storageTerm_m s ! i) (- 1) else residual_m s ! i))"
  using assms(1,2) unfolding t_def
proof (induction n)
  case 0
  then show ?case by simp
next
  case (Suc n)
  let ?t = "foldl (recycleDof curDt) s [0..<n]"
  have IH: "storageTerm_m ?t = storageTerm_m s" "oldDt_m ?t = oldDt_m s"
         "dofColor_m ?t = dofColor_m s" "elementColor_m ?t = elementColor_m s"
         "nextRelinearizationAccuracy_m ?t = nextRelinearizationAccuracy_m s"
         "relinearizationAccuracy_m ?t = relinearizationAccuracy_m s"
         "reuseLinearization_m ?t = reuseLinearization_m s"
         "length (storageJacobian_m ?t) = length (storageJacobian_m s)"
         "length (residual_m ?t) = length (residual_m s)"
         "\<forall>i j. matrix_m ?t i j = (if i = j \<and> i < n then recycledBlock s curDt i else matrix_m s i j)"
         "\<forall>i < length (storageJacobian_m s). storageJacobian_m ?t ! i =
            (if i < n then matScale (storageJacobian_m s ! i) (oldDt_m s / curDt) else storageJacobian_m s ! i)"
         "\<forall>i < length (residual_m s). residual_m ?t ! i =
            (if i < n then vecScale (storageTerm_m s ! i) (- 1) else residual_m s ! i)"
    using Suc by auto
  show ?case
    unfolding foldl_upt_Suc using IH Suc.prems
    by (auto simp: recycleDof_def recycledBlock_def Let_def nth_list_update less_Suc_eq)
qed

lemma assemble_m_recycled:
  fixes P :: "'a::{zero,one,uminus,plus,minus,times,inverse} problem"
  assumes "reuseLinearization_m s"
  shows "assemble_m P s =
           Inr ((foldl (recycleDof (timeStepSize P)) s [0..<length (storageJacobian_m s)])
                  \<lparr>reuseLinearization_m := False, oldDt_m := timeStepSize P\<rparr>)"
  using assms by (simp add: assemble_m_def resetSystem_m_def Let_def)

text \<open>
  Claim C1. With linearization recycling enabled and the reuse flag set by
  \<^verbatim>\<open>setLinearizationReusable(true)\<close>, \<^verbatim>\<open>assemble\<close> returns, and for
  every degree of freedom \<open>i\<close> the diagonal block is its previous value minus the
  cached storage Jacobian plus the cached storage Jacobian scaled by the previous time
  step size over the current one, the residual of \<open>i\<close> is the cached storage term
  multiplied by \<open>- 1\<close>, and the reuse flag is cleared.
\<close>

theorem assemble_recycled:
  fixes P :: "'a::{zero,one,uminus,plus,minus,times,inverse} problem"
  assumes "enableLinearizationRecycling P" and "sizedAsInit P s0" and "i < numDof P"
  shows "\<exists>s'. assemble P (setLinearizationReusable P True s0) = Inr s' \<and>
           matrix_m s' i i =
             matAdd (matSub (matrix_m s0 i i) (storageJacobian_m s0 ! i))
                    (matScale (storageJacobian_m s0 ! i) (oldDt_m s0 / timeStepSize P)) \<and>
           residual_m s' ! i = vecScale (storageTerm_m s0 ! i) (- 1) \<and>
           \<not> reuseLinearization_m s'"
proof -
  let ?s = "setLinearizationReusable P True s0"
  have s: "?s = s0\<lparr>reuseLinearization_m := True\<rparr>"
    using assms(1) by (simp add: setLinearizationReusable_def)
  have lens: "length (storageJacobian_m ?s) = numDof P" "length (residual_m ?s) = numDof P"
    using assms(1,2) by (auto simp: s sizedAsInit_def)
  let ?t = "foldl (recycleDof (timeStepSize P)) ?s [0..<length (storageJacobian_m ?s)]"
  have loop: "(\<forall>i j. matrix_m ?t i j =
                 (if i = j \<and> i < numDof P then recycledBlock ?s (timeStepSize P) i else matrix_m ?s i j))"
     "(\<forall>i < numDof P. residual_m ?t ! i = vecScale (storageTerm_m ?s ! i) (- 1))"
     "dofColor_m ?t = dofColor_m ?s"
    using recycle_loop[of "numDof P" ?s "timeStepSize P"] lens by auto
  have am: "assemble_m P ?s = Inr (?t\<lparr>reuseLinearization_m := False, oldDt_m := timeStepSize P\<rparr>)"
    by (rule assemble_m_recycled) (simp add: s)
  have "assemble P ?s =
        Inr (?t\<lparr>reuseLinearization_m := False, oldDt_m := timeStepSize P,
                 dofColor_m := map (\<lambda>_. Green) (dofColor_m ?t)\<rparr>)"
    unfolding assemble_def am by (simp add: s Let_def)
  then show ?thesis
    using loop(1,2) assms(3) by (simp add: recycledBlock_def s)
qed

text \<open>
  On the assembled chain, going from time step size 1 to 2: the diagonal block of degree of
  freedom 1 becomes \<open>16 - 8 + 8 \<cdot> (1/2) = 12\<close> and its residual \<open>- 4\<close>.
\<close>

theorem assemble_recycled_witness:
  "enableLinearizationRecycling (chainProblem\<lparr>timeStepSize := 2\<rparr>) \<and>
   sizedAsInit (chainProblem\<lparr>timeStepSize := 2\<rparr>) chainAssembled \<and>
   1 < numDof (chainProblem\<lparr>timeStepSize := 2\<rparr>) \<and>
   (\<exists>s'. assemble (chainProblem\<lparr>timeStepSize := 2\<rparr>)
            (setLinearizationReusable (chainProblem\<lparr>timeStepSize := 2\<rparr>) True chainAssembled) = Inr s' \<and>
         matrix_m s' 1 1 = [[12]] \<and> residual_m s' ! 1 = [- 4] \<and> \<not> reuseLinearization_m s')"
  using assemble_recycled[of "chainProblem\<lparr>timeStepSize := 2\<rparr>" chainAssembled 1]
  by (simp add: chainProblem_def chainAssembled_def chainMatrix_def sizedAsInit_def
        matAdd_def matSub_def matScale_def vecAdd_def vecScale_def)

subsection \<open>What assembling leaves alone\<close>

lemma sameColors_refl: "sameColors s s"
  by (simp add: sameColors_def)

lemma sameColors_trans: "sameColors s t \<Longrightarrow> sameColors t u \<Longrightarrow> sameColors s u"
  by (simp add: sameColors_def)

lemma sameColors_foldl:
  assumes "\<And>t x. sameColors t (f t x)"
  shows "sameColors s (foldl f s xs)"
  by (rule foldl_invariant[where Q = "sameColors s"])
     (auto intro: sameColors_refl sameColors_trans assms)

lemma sameColors_resetStorage: "sameColors s (resetStorage s i)"
  by (simp add: sameColors_def resetStorage_def)

lemma sameColors_resetRow: "sameColors s (resetRow P s i)"
  by (simp add: sameColors_def resetRow_def resetStorage_def Let_def)

lemma sameColors_resetSystem: "sameColors s (resetSystem_m P s)"
proof -
  have a: "\<And>u. sameColors u (foldl resetStorage u [0..<numDof P])"
    by (rule sameColors_foldl) (rule sameColors_resetStorage)
  have b: "\<And>u. sameColors u (foldl (resetRow P) u [0..<numDof P])"
    by (rule sameColors_foldl) (rule sameColors_resetRow)
  have c: "sameColors s (s\<lparr>residual_m := map vecAssignZero (residual_m s)\<rparr>)"
    by (simp add: sameColors_def)
  have d: "\<And>m. sameColors s (s\<lparr>residual_m := map vecAssignZero (residual_m s), matrix_m := m\<rparr>)"
    by (simp add: sameColors_def)
  show ?thesis
    unfolding resetSystem_m_def Let_def
    using sameColors_trans[OF c b] sameColors_trans[OF d a] c d
    by (auto simp: sameColors_refl)
qed

lemma sameColors_recycleDof: "sameColors s (recycleDof curDt s i)"
  by (simp add: sameColors_def recycleDof_def Let_def)

lemma sameColors_addJacobianBlock: "sameColors s (addJacobianBlock e lj p g s d)"
  by (simp add: sameColors_def addJacobianBlock_def Let_def)

lemma sameColors_addPrimaryResidual: "sameColors s (addPrimaryResidual P e lj s d)"
  by (simp add: sameColors_def addPrimaryResidual_def Let_def)

lemma sameColors_addPrimaryJacobian: "sameColors s (addPrimaryJacobian P e lj s d)"
proof -
  have a: "\<And>u p g. sameColors u (foldl (addJacobianBlock e lj p g) u [0..<length (stencilDofs e)])"
    by (rule sameColors_foldl) (rule sameColors_addJacobianBlock)
  have b: "\<And>v. sameColors s (s\<lparr>storageJacobian_m := (storageJacobian_m s)[stencilDofs e ! d := v]\<rparr>)"
    by (simp add: sameColors_def)
  show ?thesis
    unfolding addPrimaryJacobian_def Let_def
    using a sameColors_trans[OF b a] by (simp add: sameColors_refl)
qed

lemma sameColors_assemblePrimaryDof: "sameColors s (assemblePrimaryDof P e lj s d)"
  unfolding assemblePrimaryDof_def
  by (rule sameColors_trans[OF sameColors_addPrimaryResidual sameColors_addPrimaryJacobian])

lemma sameColors_addGreenResidual: "sameColors s (addGreenResidual P e lr s d)"
  by (simp add: sameColors_def addGreenResidual_def Let_def)

lemma sameColors_assembleGreenElement:
  "assembleGreenElement_m P s k = Inr t \<Longrightarrow> sameColors s t"
  unfolding assembleGreenElement_m_def
  by (auto split: sum.splits intro!: sameColors_foldl sameColors_addGreenResidual)

lemma sameColors_assembleElement:
  assumes "assembleElement_m P s k = Inr t"
  shows "sameColors s t"
proof (cases "enablePartialRelinearization P \<and> elementColor_m s ! k = Green")
  case True
  then have "assembleGreenElement_m P (s\<lparr>greenElems_m := greenElems_m s + 1\<rparr>) k = Inr t"
    using assms by (simp add: assembleElement_m_def)
  from sameColors_assembleGreenElement[OF this] show ?thesis
    by (simp add: sameColors_def)
next
  case False
  then obtain lj where "t = foldl (assemblePrimaryDof P (gridElements P ! k) lj) s
                       [0..<numPrimaryDof (gridElements P ! k)]"
    using assms by (auto simp: assembleElement_m_def split: sum.splits)
  then show ?thesis
    by (simp add: sameColors_foldl sameColors_assemblePrimaryDof)
qed

lemma sameColors_assembleElements:
  "assembleElements P s ks = Inr t \<Longrightarrow> sameColors s t"
proof (induction ks arbitrary: s)
  case Nil
  then show ?case by (simp add: sameColors_refl)
next
  case (Cons k ks)
  show ?case
  proof (cases "interior (gridElements P ! k)")
    case False
    then show ?thesis using Cons by simp
  next
    case True
    then obtain u where u: "assembleElement_m P s k = Inr u" and r: "assembleElements P u ks = Inr t"
      using Cons.prems by (auto split: sum.splits)
    show ?thesis
      using sameColors_trans[OF sameColors_assembleElement[OF u] Cons.IH[OF r]] .
  qed
qed

lemma assemble_m_colors:
  fixes P :: "'a::{zero,one,uminus,plus,minus,times,inverse} problem"
  assumes "assemble_m P s = Inr t"
  shows "elementColor_m t = elementColor_m s" "dofColor_m t = dofColor_m s"
    "dofError_m t = dofError_m s"
    "nextRelinearizationAccuracy_m t = nextRelinearizationAccuracy_m s"
proof -
  let ?s0 = "resetSystem_m P s"
  have r: "sameColors s ?s0" by (rule sameColors_resetSystem)
  have "sameColors ?s0 (t\<lparr>reuseLinearization_m := reuseLinearization_m ?s0\<rparr>)"
  proof (cases "reuseLinearization_m ?s0")
    case True
    then have "t = (foldl (recycleDof (timeStepSize P)) ?s0 [0..<length (storageJacobian_m ?s0)])
                     \<lparr>reuseLinearization_m := False, oldDt_m := timeStepSize P\<rparr>"
      using assms by (simp add: assemble_m_def Let_def)
    moreover have "sameColors ?s0 (foldl (recycleDof (timeStepSize P)) ?s0 [0..<length (storageJacobian_m ?s0)])"
      by (rule sameColors_foldl) (rule sameColors_recycleDof)
    ultimately show ?thesis by (simp add: sameColors_def)
  next
    case False
    then have "assembleElements P (?s0\<lparr>oldDt_m := timeStepSize P, greenElems_m := 0\<rparr>)
                 [0..<length (gridElements P)] = Inr t"
      using assms by (simp add: assemble_m_def Let_def)
    from sameColors_assembleElements[OF this] show ?thesis by (simp add: sameColors_def)
  qed
  with r show "elementColor_m t = elementColor_m s" "dofColor_m t = dofColor_m s"
    "dofError_m t = dofError_m s"
    "nextRelinearizationAccuracy_m t = nextRelinearizationAccuracy_m s"
    by (simp_all add: sameColors_def)
qed

lemma assemble_Inr:
  fixes P :: "'a::{zero,one,uminus,plus,minus,times,inverse} problem"
  assumes "assemble P s = Inr s'"
  obtains t where "assemble_m P s = Inr t"
    and "s' = (if \<not> reuseLinearization_m s \<and> enablePartialRelinearization P
               then t\<lparr>relinearizationAccuracy_m := nextRelinearizationAccuracy_m t\<rparr> else t)
              \<lparr>dofColor_m := map (\<lambda>_. Green) (dofColor_m t)\<rparr>"
  using assms by (auto simp: assemble_def Let_def split: sum.splits if_splits)

lemma updateDiscrepancy_elementColor:
  "elementColor_m (updateDiscrepancy P r s) = elementColor_m s"
  unfolding updateDiscrepancy_def
  by (auto intro!: foldl_invariant[where Q = "\<lambda>t. elementColor_m t = elementColor_m s"]
           simp: updateDofError_def)

text \<open>
  Claim C9. A call of \<^verbatim>\<open>assemble\<close> that does not throw leaves every entry of
  \<^verbatim>\<open>dofColor_\<close> green, whether the linearization was recycled or not, so that
  \<^verbatim>\<open>dofColor\<close> returns \<open>Green\<close> for every degree of freedom when partial
  relinearization is enabled; it leaves \<^verbatim>\<open>elementColor_\<close> as it was, so that
  \<^verbatim>\<open>elementColor\<close> returns what it returned before the call. Of the other
  operations, \<^verbatim>\<open>markDofRed\<close>, \<^verbatim>\<open>setLinearizationReusable\<close> and
  \<^verbatim>\<open>updateDiscrepancy\<close> do not change the element colours either: only
  \<^verbatim>\<open>computeColors\<close> and \<^verbatim>\<open>relinearizeAll\<close> write them.
\<close>

theorem assemble_resets_dof_colors_only:
  fixes P :: "'a::{zero,one,uminus,plus,minus,times,inverse,ord,abs} problem"
  assumes "assemble P s = Inr s'"
  shows "dofColor_m s' = replicate (length (dofColor_m s)) Green \<and>
         (enablePartialRelinearization P \<longrightarrow>
            (\<forall>i < length (dofColor_m s). dofColor P s' i = Green)) \<and>
         elementColor_m s' = elementColor_m s \<and>
         (\<forall>k. elementColor P s' k = elementColor P s k) \<and>
         elementColor_m (markDofRed P i s) = elementColor_m s \<and>
         elementColor_m (setLinearizationReusable P yesno s) = elementColor_m s \<and>
         elementColor_m (updateDiscrepancy P previousResid s) = elementColor_m s"
proof -
  from assms obtain t where t: "assemble_m P s = Inr t"
    and s': "s' = (if \<not> reuseLinearization_m s \<and> enablePartialRelinearization P
               then t\<lparr>relinearizationAccuracy_m := nextRelinearizationAccuracy_m t\<rparr> else t)
              \<lparr>dofColor_m := map (\<lambda>_. Green) (dofColor_m t)\<rparr>"
    by (rule assemble_Inr)
  have e: "elementColor_m s' = elementColor_m s" and d: "dofColor_m s' = map (\<lambda>_. Green) (dofColor_m s)"
    using assemble_m_colors(1,2)[OF t] by (auto simp: s')
  have d': "dofColor_m s' = replicate (length (dofColor_m s)) Green"
    using d by (simp add: map_replicate_const)
  show ?thesis
    using e d' updateDiscrepancy_elementColor[of P previousResid s]
    by (simp add: dofColor_def elementColor_def markDofRed_def setLinearizationReusable_def)
qed

subsection \<open>What the element loop adds to the right-hand side\<close>

lemma assembleElement_returns:
  assumes "\<not> isl (localJacobianAssemble P k)" "\<not> isl (localResidualEval P k)"
  shows "\<exists>t. assembleElement_m P s k = Inr t"
  using assms
  by (cases "localJacobianAssemble P k"; cases "localResidualEval P k")
     (auto simp: assembleElement_m_def assembleGreenElement_m_def)

lemma assembleElements_returns:
  assumes "\<forall>k \<in> set ks. \<not> isl (localJacobianAssemble P k) \<and> \<not> isl (localResidualEval P k)"
  shows "\<exists>t. assembleElements P s ks = Inr t"
  using assms
proof (induction ks arbitrary: s)
  case Nil
  then show ?case by simp
next
  case (Cons k ks)
  then obtain u where "assembleElement_m P s k = Inr u"
    using assembleElement_returns[of P k s] by auto
  then show ?case using Cons by auto
qed

lemma assemble_returns:
  fixes P :: "'a::{zero,one,uminus,plus,minus,times,inverse} problem"
  assumes "evaluatorsSucceed P \<or> reuseLinearization_m s"
  shows "\<exists>s'. assemble P s = Inr s'"
proof -
  have "\<exists>t. assemble_m P s = Inr t"
  proof (cases "reuseLinearization_m (resetSystem_m P s)")
    case True
    then show ?thesis by (simp add: assemble_m_def Let_def)
  next
    case False
    then have "\<not> reuseLinearization_m s" by (auto simp: resetSystem_m_def)
    with assms have "evaluatorsSucceed P" by simp
    then have "\<forall>k \<in> set [0..<length (gridElements P)].
                 \<not> isl (localJacobianAssemble P k) \<and> \<not> isl (localResidualEval P k)"
      by (simp add: evaluatorsSucceed_def)
    from assembleElements_returns[OF this] False show ?thesis
      by (simp add: assemble_m_def Let_def)
  qed
  then show ?thesis by (auto simp: assemble_def Let_def)
qed

text \<open>One block added at \<open>g\<close>, read at \<open>i\<close>.\<close>

lemma nth_add_at:
  "i < length xs \<Longrightarrow> xs[g := f (xs ! g)] ! i = (if g = i then f (xs ! i) else xs ! i)"
  by (auto simp: nth_list_update)

lemma addPrimaryResidual_nth:
  assumes "i < length (residual_m s)"
  shows "residual_m (addPrimaryResidual P e lj s d) ! i =
           (if stencilDofs e ! d = i then vecAdd (residual_m s ! i) (lj_residual lj d)
            else residual_m s ! i)"
  using assms by (auto simp: addPrimaryResidual_def Let_def nth_list_update)

lemma addPrimaryResidual_storage_nth:
  assumes "i < length (storageTerm_m s)"
  shows "storageTerm_m (addPrimaryResidual P e lj s d) ! i =
           (if enableLinearizationRecycling P \<and> stencilDofs e ! d = i
            then vecAdd (storageTerm_m s ! i) (lj_residualStorage lj d)
            else storageTerm_m s ! i)"
  using assms by (auto simp: addPrimaryResidual_def Let_def nth_list_update)

lemma addGreenResidual_nth:
  assumes "i < length (residual_m s)"
  shows "residual_m (addGreenResidual P e lr s d) ! i =
           (if stencilDofs e ! d = i then vecAdd (residual_m s ! i) (lr_residual lr d)
            else residual_m s ! i)"
  using assms by (auto simp: addGreenResidual_def Let_def nth_list_update)

lemma addGreenResidual_storage_nth:
  assumes "i < length (storageTerm_m s)"
  shows "storageTerm_m (addGreenResidual P e lr s d) ! i =
           (if enableLinearizationRecycling P \<and> stencilDofs e ! d = i
            then vecAdd (storageTerm_m s ! i) (lr_storageTerm lr d)
            else storageTerm_m s ! i)"
  using assms by (auto simp: addGreenResidual_def Let_def nth_list_update)

lemma addJacobianBlock_rhs:
  "residual_m (addJacobianBlock e lj p g s d) = residual_m s"
  "storageTerm_m (addJacobianBlock e lj p g s d) = storageTerm_m s"
  by (simp_all add: addJacobianBlock_def Let_def)

lemma addPrimaryJacobian_rhs:
  "residual_m (addPrimaryJacobian P e lj s d) = residual_m s \<and>
   storageTerm_m (addPrimaryJacobian P e lj s d) = storageTerm_m s"
proof -
  have a: "\<And>u p g. residual_m (foldl (addJacobianBlock e lj p g) u [0..<length (stencilDofs e)]) = residual_m u \<and>
                  storageTerm_m (foldl (addJacobianBlock e lj p g) u [0..<length (stencilDofs e)]) = storageTerm_m u"
    by (rule foldl_invariant[where Q = "\<lambda>t. residual_m t = residual_m _ \<and> storageTerm_m t = storageTerm_m _"])
       (simp_all add: addJacobianBlock_rhs)
  show ?thesis
    unfolding addPrimaryJacobian_def Let_def by (simp add: a)
qed

lemma assemblePrimaryDof_nth:
  "i < length (residual_m s) \<Longrightarrow>
     residual_m (assemblePrimaryDof P e lj s d) ! i =
       (if stencilDofs e ! d = i then vecAdd (residual_m s ! i) (lj_residual lj d)
        else residual_m s ! i)"
  "i < length (storageTerm_m s) \<Longrightarrow>
     storageTerm_m (assemblePrimaryDof P e lj s d) ! i =
       (if enableLinearizationRecycling P \<and> stencilDofs e ! d = i
        then vecAdd (storageTerm_m s ! i) (lj_residualStorage lj d)
        else storageTerm_m s ! i)"
  by (simp_all add: assemblePrimaryDof_def addPrimaryJacobian_rhs
        addPrimaryResidual_nth addPrimaryResidual_storage_nth)

lemma primary_loop_residual:
  assumes "i < length (residual_m s)"
  shows "residual_m (foldl (assemblePrimaryDof P e lj) s ds) ! i =
           foldl vecAdd (residual_m s ! i)
             (map (lj_residual lj) (filter (\<lambda>d. stencilDofs e ! d = i) ds))"
  using assms
proof (induction ds arbitrary: s)
  case Nil
  then show ?case by simp
next
  case (Cons d ds)
  let ?u = "assemblePrimaryDof P e lj s d"
  have "sameColors s ?u" by (rule sameColors_assemblePrimaryDof)
  then have len: "i < length (residual_m ?u)" using Cons.prems by (simp add: sameColors_def)
  show ?case
    using Cons.IH[OF len] assemblePrimaryDof_nth(1)[OF Cons.prems, of P e lj d] by simp
qed

lemma primary_loop_storage:
  assumes "i < length (storageTerm_m s)"
  shows "storageTerm_m (foldl (assemblePrimaryDof P e lj) s ds) ! i =
           (if enableLinearizationRecycling P
            then foldl vecAdd (storageTerm_m s ! i)
                   (map (lj_residualStorage lj) (filter (\<lambda>d. stencilDofs e ! d = i) ds))
            else storageTerm_m s ! i)"
  using assms
proof (induction ds arbitrary: s)
  case Nil
  then show ?case by simp
next
  case (Cons d ds)
  let ?u = "assemblePrimaryDof P e lj s d"
  have "sameColors s ?u" by (rule sameColors_assemblePrimaryDof)
  then have len: "i < length (storageTerm_m ?u)" using Cons.prems by (simp add: sameColors_def)
  show ?case
    using Cons.IH[OF len] assemblePrimaryDof_nth(2)[OF Cons.prems, of P e lj d] by simp
qed

lemma green_loop_residual:
  assumes "i < length (residual_m s)"
  shows "residual_m (foldl (addGreenResidual P e lr) s ds) ! i =
           foldl vecAdd (residual_m s ! i)
             (map (lr_residual lr) (filter (\<lambda>d. stencilDofs e ! d = i) ds))"
  using assms
proof (induction ds arbitrary: s)
  case Nil
  then show ?case by simp
next
  case (Cons d ds)
  let ?u = "addGreenResidual P e lr s d"
  have "sameColors s ?u" by (rule sameColors_addGreenResidual)
  then have len: "i < length (residual_m ?u)" using Cons.prems by (simp add: sameColors_def)
  show ?case
    using Cons.IH[OF len] addGreenResidual_nth[OF Cons.prems, of P e lr d] by simp
qed

lemma green_loop_storage:
  assumes "i < length (storageTerm_m s)"
  shows "storageTerm_m (foldl (addGreenResidual P e lr) s ds) ! i =
           (if enableLinearizationRecycling P
            then foldl vecAdd (storageTerm_m s ! i)
                   (map (lr_storageTerm lr) (filter (\<lambda>d. stencilDofs e ! d = i) ds))
            else storageTerm_m s ! i)"
  using assms
proof (induction ds arbitrary: s)
  case Nil
  then show ?case by simp
next
  case (Cons d ds)
  let ?u = "addGreenResidual P e lr s d"
  have "sameColors s ?u" by (rule sameColors_addGreenResidual)
  then have len: "i < length (storageTerm_m ?u)" using Cons.prems by (simp add: sameColors_def)
  show ?case
    using Cons.IH[OF len] addGreenResidual_storage_nth[OF Cons.prems, of P e lr d] by simp
qed

lemma contribs_filter_map:
  "map h (filter (\<lambda>c. fst c = i) (map (\<lambda>d. (g d, r d, st d)) ds)) =
   map (\<lambda>d. h (g d, r d, st d)) (filter (\<lambda>d. g d = i) ds)"
  by (induction ds) auto

lemma assembleElement_rhs:
  assumes ok: "assembleElement_m P s k = Inr t" and int: "interior (gridElements P ! k)"
  shows "i < length (residual_m s) \<Longrightarrow>
           residual_m t ! i =
             foldl vecAdd (residual_m s ! i)
               (map (\<lambda>c. fst (snd c)) (filter (\<lambda>c. fst c = i) (elementContribs P s k)))"
    and "i < length (storageTerm_m s) \<Longrightarrow>
           storageTerm_m t ! i =
             (if enableLinearizationRecycling P
              then foldl vecAdd (storageTerm_m s ! i)
                     (map (\<lambda>c. snd (snd c)) (filter (\<lambda>c. fst c = i) (elementContribs P s k)))
              else storageTerm_m s ! i)"
proof -
  let ?e = "gridElements P ! k"
  show "i < length (residual_m s) \<Longrightarrow>
           residual_m t ! i =
             foldl vecAdd (residual_m s ! i)
               (map (\<lambda>c. fst (snd c)) (filter (\<lambda>c. fst c = i) (elementContribs P s k)))"
  proof (cases "enablePartialRelinearization P \<and> elementColor_m s ! k = Green")
    case True
    assume i: "i < length (residual_m s)"
    from True ok obtain lr where lr: "localResidualEval P k = Inr lr"
      and t: "t = foldl (addGreenResidual P ?e lr) (s\<lparr>greenElems_m := greenElems_m s + 1\<rparr>)
                    [0..<numPrimaryDof ?e]"
      by (auto simp: assembleElement_m_def assembleGreenElement_m_def split: sum.splits)
    show ?thesis
      unfolding t using True int lr i
      by (simp add: green_loop_residual elementContribs_def contribs_filter_map Let_def)
  next
    case False
    assume i: "i < length (residual_m s)"
    from False ok obtain lj where lj: "localJacobianAssemble P k = Inr lj"
      and t: "t = foldl (assemblePrimaryDof P ?e lj) s [0..<numPrimaryDof ?e]"
      by (auto simp: assembleElement_m_def split: sum.splits)
    show ?thesis
      unfolding t using False int lj i
      by (auto simp add: primary_loop_residual elementContribs_def contribs_filter_map Let_def)
  qed
  show "i < length (storageTerm_m s) \<Longrightarrow>
           storageTerm_m t ! i =
             (if enableLinearizationRecycling P
              then foldl vecAdd (storageTerm_m s ! i)
                     (map (\<lambda>c. snd (snd c)) (filter (\<lambda>c. fst c = i) (elementContribs P s k)))
              else storageTerm_m s ! i)"
  proof (cases "enablePartialRelinearization P \<and> elementColor_m s ! k = Green")
    case True
    assume i: "i < length (storageTerm_m s)"
    from True ok obtain lr where lr: "localResidualEval P k = Inr lr"
      and t: "t = foldl (addGreenResidual P ?e lr) (s\<lparr>greenElems_m := greenElems_m s + 1\<rparr>)
                    [0..<numPrimaryDof ?e]"
      by (auto simp: assembleElement_m_def assembleGreenElement_m_def split: sum.splits)
    show ?thesis
      unfolding t using True int lr i
      by (simp add: green_loop_storage elementContribs_def contribs_filter_map Let_def)
  next
    case False
    assume i: "i < length (storageTerm_m s)"
    from False ok obtain lj where lj: "localJacobianAssemble P k = Inr lj"
      and t: "t = foldl (assemblePrimaryDof P ?e lj) s [0..<numPrimaryDof ?e]"
      by (auto simp: assembleElement_m_def split: sum.splits)
    show ?thesis
      unfolding t using False int lj i
      by (auto simp add: primary_loop_storage elementContribs_def contribs_filter_map Let_def)
  qed
qed

lemma elementContribs_cong:
  "elementColor_m u = elementColor_m s \<Longrightarrow> elementContribs P u k = elementContribs P s k"
  by (simp add: elementContribs_def Let_def)

lemma elementContribs_exterior:
  "\<not> interior (gridElements P ! k) \<Longrightarrow> elementContribs P s k = []"
  by (simp add: elementContribs_def Let_def)

lemma assembleElements_residual:
  assumes "assembleElements P s ks = Inr t" and "i < length (residual_m s)"
  shows "residual_m t ! i =
           foldl vecAdd (residual_m s ! i) (map (\<lambda>c. fst (snd c)) (contributionsTo P s ks i))"
  using assms
proof (induction ks arbitrary: s)
  case Nil
  then show ?case by (simp add: contributionsTo_def)
next
  case (Cons k ks)
  show ?case
  proof (cases "interior (gridElements P ! k)")
    case False
    then have "assembleElements P s ks = Inr t" using Cons.prems by simp
    from Cons.IH[OF this Cons.prems(2)] False show ?thesis
      by (simp add: contributionsTo_def elementContribs_exterior)
  next
    case True
    then obtain u where u: "assembleElement_m P s k = Inr u" and r: "assembleElements P u ks = Inr t"
      using Cons.prems by (auto split: sum.splits)
    have sc: "sameColors s u" by (rule sameColors_assembleElement[OF u])
    then have len: "i < length (residual_m u)" using Cons.prems by (simp add: sameColors_def)
    have ec: "elementContribs P u = elementContribs P s"
      using sc elementContribs_cong[of u s P] by (auto simp: sameColors_def fun_eq_iff)
    show ?thesis
      using Cons.IH[OF r len] assembleElement_rhs(1)[OF u True Cons.prems(2)]
      by (simp add: contributionsTo_def ec)
  qed
qed

lemma assembleElements_storage:
  assumes "assembleElements P s ks = Inr t" and "i < length (storageTerm_m s)"
  shows "storageTerm_m t ! i =
           (if enableLinearizationRecycling P
            then foldl vecAdd (storageTerm_m s ! i) (map (\<lambda>c. snd (snd c)) (contributionsTo P s ks i))
            else storageTerm_m s ! i)"
  using assms
proof (induction ks arbitrary: s)
  case Nil
  then show ?case by (simp add: contributionsTo_def)
next
  case (Cons k ks)
  show ?case
  proof (cases "interior (gridElements P ! k)")
    case False
    then have "assembleElements P s ks = Inr t" using Cons.prems by simp
    from Cons.IH[OF this Cons.prems(2)] False show ?thesis
      by (simp add: contributionsTo_def elementContribs_exterior)
  next
    case True
    then obtain u where u: "assembleElement_m P s k = Inr u" and r: "assembleElements P u ks = Inr t"
      using Cons.prems by (auto split: sum.splits)
    have sc: "sameColors s u" by (rule sameColors_assembleElement[OF u])
    then have len: "i < length (storageTerm_m u)" using Cons.prems by (simp add: sameColors_def)
    have ec: "elementContribs P u = elementContribs P s"
      using sc elementContribs_cong[of u s P] by (auto simp: sameColors_def fun_eq_iff)
    show ?thesis
      using Cons.IH[OF r len] assembleElement_rhs(2)[OF u True Cons.prems(2)]
      by (simp add: contributionsTo_def ec)
  qed
qed

subsection \<open>Rows of green degrees of freedom\<close>

lemma jacobianKept_refl: "jacobianKept i s s"
  by (simp add: jacobianKept_def sameColors_refl)

lemma jacobianKept_trans: "jacobianKept i s t \<Longrightarrow> jacobianKept i t u \<Longrightarrow> jacobianKept i s u"
  by (auto simp: jacobianKept_def intro: sameColors_trans)

lemma rowKept_refl: "rowKept i s s"
  by (simp add: rowKept_def jacobianKept_refl)

lemma rowKept_trans: "rowKept i s t \<Longrightarrow> rowKept i t u \<Longrightarrow> rowKept i s u"
  by (auto simp: rowKept_def intro: jacobianKept_trans)

lemma rowKept_resetRow:
  assumes "dofColor_m s ! i = Green"
  shows "rowKept i s (resetRow P s r)"
proof (cases "dofColor_m s ! r = Green")
  case True
  then show ?thesis by (simp add: resetRow_def rowKept_refl)
next
  case False
  then have "r \<noteq> i" using assms by auto
  then show ?thesis
    by (simp add: resetRow_def resetStorage_def Let_def rowKept_def jacobianKept_def sameColors_def)
qed

lemma rowKept_resetRows:
  assumes "dofColor_m s ! i = Green"
  shows "rowKept i s (foldl (resetRow P) s rs)"
proof (rule foldl_invariant[where Q = "rowKept i s"])
  show "rowKept i s s" by (rule rowKept_refl)
next
  fix t x assume t: "rowKept i s t"
  then have "dofColor_m t ! i = Green"
    using assms by (simp add: rowKept_def jacobianKept_def sameColors_def)
  from rowKept_trans[OF t rowKept_resetRow[OF this]] show "rowKept i s (resetRow P t x)" .
qed

lemma resetRows_residual: "residual_m (foldl (resetRow P) s rs) = residual_m s"
  by (rule foldl_invariant[where Q = "\<lambda>t. residual_m t = residual_m s"])
     (simp_all add: resetRow_def resetStorage_def Let_def)

lemma resetStorages_residual: "residual_m (foldl resetStorage s rs) = residual_m s"
  by (rule foldl_invariant[where Q = "\<lambda>t. residual_m t = residual_m s"])
     (simp_all add: resetStorage_def)

lemma resetSystem_residual:
  "residual_m (resetSystem_m P s) =
     (if reuseLinearization_m s then residual_m s else map vecAssignZero (residual_m s))"
  by (simp add: resetSystem_m_def Let_def resetRows_residual resetStorages_residual)

lemma resetSystem_green_row:
  assumes "enablePartialRelinearization P" and "dofColor_m s ! i = Green"
  shows "jacobianKept i s (resetSystem_m P s)"
    and "storageTerm_m (resetSystem_m P s) ! i = storageTerm_m s ! i"
proof -
  let ?s1 = "s\<lparr>residual_m := map vecAssignZero (residual_m s)\<rparr>"
  have g: "dofColor_m ?s1 ! i = Green" using assms(2) by simp
  have k: "rowKept i ?s1 (foldl (resetRow P) ?s1 [0..<numDof P])"
    by (rule rowKept_resetRows[OF g])
  show "jacobianKept i s (resetSystem_m P s)"
    using k assms(1)
    by (auto simp: resetSystem_m_def Let_def rowKept_def jacobianKept_def sameColors_def)
  show "storageTerm_m (resetSystem_m P s) ! i = storageTerm_m s ! i"
    using k assms(1)
    by (auto simp: resetSystem_m_def Let_def rowKept_def)
qed

lemma jacobianKept_addJacobianBlock:
  "g \<noteq> i \<Longrightarrow> jacobianKept i s (addJacobianBlock e lj p g s d)"
  by (simp add: jacobianKept_def sameColors_def addJacobianBlock_def Let_def)

lemma jacobianKept_addPrimaryJacobian:
  assumes "enablePartialRelinearization P" and "dofColor_m s ! i = Green"
  shows "jacobianKept i s (addPrimaryJacobian P e lj s d)"
proof (cases "dofColor P s (stencilDofs e ! d) \<noteq> Green")
  case False
  then show ?thesis by (simp add: addPrimaryJacobian_def Let_def jacobianKept_refl)
next
  case True
  let ?g = "stencilDofs e ! d"
  from True have ne: "?g \<noteq> i" using assms by (auto simp: dofColor_def)
  have a: "\<And>u. jacobianKept i u (foldl (addJacobianBlock e lj d ?g) u [0..<length (stencilDofs e)])"
    by (rule foldl_invariant[where Q = "jacobianKept i _"])
       (auto intro: jacobianKept_refl jacobianKept_trans jacobianKept_addJacobianBlock[OF ne])
  have b: "\<And>v. jacobianKept i s (s\<lparr>storageJacobian_m := (storageJacobian_m s)[?g := v]\<rparr>)"
    using ne by (simp add: jacobianKept_def sameColors_def)
  show ?thesis
    unfolding addPrimaryJacobian_def Let_def
    using True a jacobianKept_trans[OF b a] by simp
qed

lemma jacobianKept_addPrimaryResidual: "jacobianKept i s (addPrimaryResidual P e lj s d)"
  by (simp add: jacobianKept_def sameColors_def addPrimaryResidual_def Let_def)

lemma jacobianKept_addGreenResidual: "jacobianKept i s (addGreenResidual P e lr s d)"
  by (simp add: jacobianKept_def sameColors_def addGreenResidual_def Let_def)

lemma jacobianKept_green:
  "jacobianKept i s t \<Longrightarrow> dofColor_m s ! i = Green \<Longrightarrow> dofColor_m t ! i = Green"
  by (simp add: jacobianKept_def sameColors_def)

lemma jacobianKept_foldl:
  assumes g: "dofColor_m s ! i = Green"
    and step: "\<And>t x. dofColor_m t ! i = Green \<Longrightarrow> jacobianKept i t (f t x)"
  shows "jacobianKept i s (foldl f s xs)"
proof (rule foldl_invariant[where Q = "jacobianKept i s"])
  show "jacobianKept i s s" by (rule jacobianKept_refl)
next
  fix t x assume t: "jacobianKept i s t"
  from jacobianKept_trans[OF t step[OF jacobianKept_green[OF t g]]]
  show "jacobianKept i s (f t x)" .
qed

lemma jacobianKept_assembleElement:
  assumes p: "enablePartialRelinearization P" and g: "dofColor_m s ! i = Green"
    and ok: "assembleElement_m P s k = Inr t"
  shows "jacobianKept i s t"
proof (cases "enablePartialRelinearization P \<and> elementColor_m s ! k = Green")
  case True
  let ?s1 = "s\<lparr>greenElems_m := greenElems_m s + 1\<rparr>"
  from True ok obtain lr where
    t: "t = foldl (addGreenResidual P (gridElements P ! k) lr) ?s1 [0..<numPrimaryDof (gridElements P ! k)]"
    by (auto simp: assembleElement_m_def assembleGreenElement_m_def split: sum.splits)
  have "jacobianKept i ?s1 t"
    unfolding t by (rule jacobianKept_foldl) (simp_all add: g jacobianKept_addGreenResidual)
  then show ?thesis by (simp add: jacobianKept_def sameColors_def)
next
  case False
  from False ok obtain lj where
    t: "t = foldl (assemblePrimaryDof P (gridElements P ! k) lj) s [0..<numPrimaryDof (gridElements P ! k)]"
    by (auto simp: assembleElement_m_def split: sum.splits)
  have step: "\<And>u x. dofColor_m u ! i = Green \<Longrightarrow>
                 jacobianKept i u (assemblePrimaryDof P (gridElements P ! k) lj u x)"
  proof -
    fix u :: "'a assembler" and x
    assume u: "dofColor_m u ! i = Green"
    let ?v = "addPrimaryResidual P (gridElements P ! k) lj u x"
    have a: "jacobianKept i u ?v" by (rule jacobianKept_addPrimaryResidual)
    have "jacobianKept i ?v (addPrimaryJacobian P (gridElements P ! k) lj ?v x)"
      by (rule jacobianKept_addPrimaryJacobian[OF p jacobianKept_green[OF a u]])
    with a show "jacobianKept i u (assemblePrimaryDof P (gridElements P ! k) lj u x)"
      unfolding assemblePrimaryDof_def by (rule jacobianKept_trans)
  qed
  show ?thesis unfolding t by (rule jacobianKept_foldl[OF g step])
qed

lemma jacobianKept_assembleElements:
  assumes p: "enablePartialRelinearization P"
  shows "dofColor_m s ! i = Green \<Longrightarrow> assembleElements P s ks = Inr t \<Longrightarrow> jacobianKept i s t"
proof (induction ks arbitrary: s)
  case Nil
  then show ?case by (simp add: jacobianKept_refl)
next
  case (Cons k ks)
  show ?case
  proof (cases "interior (gridElements P ! k)")
    case False
    then show ?thesis using Cons by simp
  next
    case True
    then obtain u where u: "assembleElement_m P s k = Inr u" and r: "assembleElements P u ks = Inr t"
      using Cons.prems by (auto split: sum.splits)
    have a: "jacobianKept i s u" by (rule jacobianKept_assembleElement[OF p Cons.prems(1) u])
    from jacobianKept_trans[OF a Cons.IH[OF jacobianKept_green[OF a Cons.prems(1)] r]]
    show ?thesis .
  qed
qed

lemma chainColored_computed:
  "computeColors chainProblem (1 / 2) (chainAssembled\<lparr>dofError_m := [1, 0, 0, 0]\<rparr>) = chainColored"
  by (simp add: computeColors_defs chainProblem_def chainAssembled_def chainColored_def
        upt_small Let_def)

lemma contributionsTo_cong:
  "elementColor_m u = elementColor_m s \<Longrightarrow> contributionsTo P u ks i = contributionsTo P s ks i"
  using elementContribs_cong[of u s P] by (simp add: contributionsTo_def fun_eq_iff cong: map_cong)

lemma assemble_not_reused:
  fixes P :: "'a::{zero,one,uminus,plus,minus,times,inverse} problem"
  assumes "\<not> reuseLinearization_m s" and "assemble P s = Inr s'"
  obtains t where
    "assembleElements P ((resetSystem_m P s)\<lparr>oldDt_m := timeStepSize P, greenElems_m := 0\<rparr>)
       [0..<length (gridElements P)] = Inr t"
    and "residual_m s' = residual_m t" and "storageTerm_m s' = storageTerm_m t"
    and "storageJacobian_m s' = storageJacobian_m t" and "matrix_m s' = matrix_m t"
proof -
  from assms(2) obtain t where t: "assemble_m P s = Inr t"
    and s': "s' = (if \<not> reuseLinearization_m s \<and> enablePartialRelinearization P
               then t\<lparr>relinearizationAccuracy_m := nextRelinearizationAccuracy_m t\<rparr> else t)
              \<lparr>dofColor_m := map (\<lambda>_. Green) (dofColor_m t)\<rparr>"
    by (rule assemble_Inr)
  have nr: "\<not> reuseLinearization_m (resetSystem_m P s)"
    using sameColors_resetSystem[of s P] assms(1) by (simp add: sameColors_def)
  have "assembleElements P ((resetSystem_m P s)\<lparr>oldDt_m := timeStepSize P, greenElems_m := 0\<rparr>)
       [0..<length (gridElements P)] = Inr t"
    using t nr by (simp add: assemble_m_def Let_def)
  then show ?thesis using that s' by simp
qed

text \<open>
  Claim C10. With linearization recycling and partial relinearization both enabled, an
  \<^verbatim>\<open>assemble\<close> that does not reuse the linearization and does not throw leaves, for
  a degree of freedom \<open>i\<close> that is green when it is called, the row of the matrix and the
  cached storage Jacobian as they were, and the cached storage term of \<open>i\<close> is its
  previous value with the storage terms the element loop has evaluated for \<open>i\<close> added to
  it one after the other: the cache of a green row is not reset, and is added to all the
  same.
\<close>

theorem assemble_adds_storage_term_of_green_dof:
  fixes P :: "'a::{zero,one,uminus,plus,minus,times,inverse} problem"
  assumes "enableLinearizationRecycling P" and "enablePartialRelinearization P"
    and "\<not> reuseLinearization_m s" and "sizedAsInit P s" and "i < numDof P"
    and "dofColor P s i = Green" and "assemble P s = Inr s'"
  shows "storageTerm_m s' ! i = foldl vecAdd (storageTerm_m s ! i) (storageContributions P s i) \<and>
         storageJacobian_m s' ! i = storageJacobian_m s ! i \<and>
         matrix_m s' i = matrix_m s i"
proof -
  let ?s0 = "resetSystem_m P s"
  let ?s1 = "?s0\<lparr>oldDt_m := timeStepSize P, greenElems_m := 0\<rparr>"
  from assemble_not_reused[OF assms(3,7)] obtain t where
    t: "assembleElements P ?s1 [0..<length (gridElements P)] = Inr t"
    and eqs: "storageTerm_m s' = storageTerm_m t" "storageJacobian_m s' = storageJacobian_m t"
      "matrix_m s' = matrix_m t"
    by blast
  have g: "dofColor_m s ! i = Green" using assms(2,6) by (simp add: dofColor_def)
  have k0: "jacobianKept i s ?s0" and st0: "storageTerm_m ?s0 ! i = storageTerm_m s ! i"
    using resetSystem_green_row[OF assms(2) g] by auto
  have k1: "jacobianKept i s ?s1" and st1: "storageTerm_m ?s1 ! i = storageTerm_m s ! i"
    using k0 st0 by (simp_all add: jacobianKept_def sameColors_def)
  have g1: "dofColor_m ?s1 ! i = Green" by (rule jacobianKept_green[OF k1 g])
  have kt: "jacobianKept i ?s1 t" by (rule jacobianKept_assembleElements[OF assms(2) g1 t])
  have len: "i < length (storageTerm_m ?s1)"
    using k1 assms(1,4,5) by (simp add: jacobianKept_def sameColors_def sizedAsInit_def)
  have ec: "elementColor_m ?s1 = elementColor_m s"
    using k1 by (simp add: jacobianKept_def sameColors_def)
  have "storageTerm_m t ! i =
          foldl vecAdd (storageTerm_m s ! i)
            (map (\<lambda>c. snd (snd c)) (contributionsTo P s [0..<length (gridElements P)] i))"
    using assembleElements_storage[OF t len] assms(1) st1 contributionsTo_cong[OF ec] by simp
  then show ?thesis
    using eqs jacobianKept_trans[OF k1 kt]
    by (simp add: storageContributions_def jacobianKept_def)
qed

lemma chain_evaluatorsSucceed: "evaluatorsSucceed chainProblem"
  by (simp add: evaluatorsSucceed_def chainProblem_def)

lemma chainColored_contributions:
  "storageContributions chainProblem chainColored 2 = [[2], [2]]"
  "residualContributions chainProblem chainColored 2 = [[1], [1]]"
  by (simp_all add: storageContributions_def residualContributions_def contributionsTo_def
        elementContribs_def chainProblem_def chainColored_def upt_small Let_def
        unitJacobian_def unitResidual_def)

text \<open>
  On the coloured chain, degree of freedom 2 is green, its cached storage term is 4, and
  the yellow element 1 and the green element 2 each evaluate the storage term 2 for it:
  after \<^verbatim>\<open>assemble\<close> the cache holds 8, not the new storage term 4.
\<close>

theorem assemble_adds_storage_term_of_green_dof_witness:
  "enableLinearizationRecycling chainProblem \<and> enablePartialRelinearization chainProblem \<and>
   \<not> reuseLinearization_m chainColored \<and> sizedAsInit chainProblem chainColored \<and>
   2 < numDof chainProblem \<and> dofColor chainProblem chainColored 2 = Green \<and>
   storageTerm_m chainColored ! 2 = [4] \<and>
   storageContributions chainProblem chainColored 2 = [[2], [2]] \<and>
   (\<exists>s'. assemble chainProblem chainColored = Inr s' \<and> storageTerm_m s' ! 2 = [8] \<and>
         storageJacobian_m s' ! 2 = [[8]] \<and> matrix_m s' 2 2 = [[16]])"
proof -
  have "\<not> reuseLinearization_m chainColored" by (simp add: chainColored_def)
  obtain s' where s': "assemble chainProblem chainColored = Inr s'"
    using assemble_returns[of chainProblem chainColored] chain_evaluatorsSucceed by blast
  have hyps: "enableLinearizationRecycling chainProblem" "enablePartialRelinearization chainProblem"
    "\<not> reuseLinearization_m chainColored" "sizedAsInit chainProblem chainColored"
    "2 < numDof chainProblem" "dofColor chainProblem chainColored 2 = Green"
    by (simp_all add: chainProblem_def chainColored_def sizedAsInit_def dofColor_def)
  from assemble_adds_storage_term_of_green_dof[OF hyps s']
  have "storageTerm_m s' ! 2 = [8] \<and> storageJacobian_m s' ! 2 = [[8]] \<and> matrix_m s' 2 2 = [[16]]"
    by (simp add: chainColored_contributions) (simp add: chainColored_def chainMatrix_def vecAdd_def)
  with hyps s' show ?thesis
    by (simp add: chainColored_contributions) (simp add: chainColored_def)
qed

lemma resetSystem_reused: "reuseLinearization_m s \<Longrightarrow> resetSystem_m P s = s"
  by (simp add: resetSystem_m_def)

text \<open>
  Claim C5, as the code has it. \<^verbatim>\<open>assemble\<close> resets the residual to zero before
  the element loop adds to it only when the linearization is not reused: then
  \<^verbatim>\<open>resetSystem_\<close> zeroes every block of the residual, and after a call that does
  not throw the residual of a degree of freedom \<open>i\<close> is the zero block with the residuals
  that the element loop has evaluated for \<open>i\<close> added one after the other. When the
  linearization is reused, \<^verbatim>\<open>resetSystem_\<close> returns at once and changes nothing;
  the recycling loop then overwrites the residual of every degree of freedom with the
  cached storage term multiplied by \<open>- 1\<close>.
\<close>

theorem assemble_resets_residual_unless_reused:
  fixes P :: "'a::{zero,one,uminus,plus,minus,times,inverse} problem"
  assumes "sizedAsInit P s" and "i < numDof P" and "assemble P s = Inr s'"
  shows "(\<not> reuseLinearization_m s \<longrightarrow>
            residual_m (resetSystem_m P s) = map vecAssignZero (residual_m s) \<and>
            residual_m s' ! i =
              foldl vecAdd (vecAssignZero (residual_m s ! i)) (residualContributions P s i)) \<and>
         (reuseLinearization_m s \<longrightarrow>
            resetSystem_m P s = s \<and>
            (enableLinearizationRecycling P \<longrightarrow>
               residual_m s' ! i = vecScale (storageTerm_m s ! i) (- 1)))"
proof (cases "reuseLinearization_m s")
  case False
  let ?s0 = "resetSystem_m P s"
  let ?s1 = "?s0\<lparr>oldDt_m := timeStepSize P, greenElems_m := 0\<rparr>"
  from assemble_not_reused[OF False assms(3)] obtain t where
    t: "assembleElements P ?s1 [0..<length (gridElements P)] = Inr t"
    and eq: "residual_m s' = residual_m t"
    by blast
  have r0: "residual_m ?s0 = map vecAssignZero (residual_m s)"
    using False by (simp add: resetSystem_residual)
  have il: "i < length (residual_m s)" using assms(1,2) by (simp add: sizedAsInit_def)
  then have len: "i < length (residual_m ?s1)" using r0 by simp
  have ec: "elementColor_m ?s1 = elementColor_m s"
    using sameColors_resetSystem[of s P] by (simp add: sameColors_def)
  have "residual_m t ! i =
          foldl vecAdd (vecAssignZero (residual_m s ! i))
            (map (\<lambda>c. fst (snd c)) (contributionsTo P s [0..<length (gridElements P)] i))"
    using assembleElements_residual[OF t len] r0 il contributionsTo_cong[OF ec] by simp
  then show ?thesis
    using False r0 eq by (simp add: residualContributions_def)
next
  case True
  have rs: "resetSystem_m P s = s" using True by (rule resetSystem_reused)
  have "enableLinearizationRecycling P \<Longrightarrow> residual_m s' ! i = vecScale (storageTerm_m s ! i) (- 1)"
  proof -
    assume rec: "enableLinearizationRecycling P"
    then have lens: "length (storageJacobian_m s) = numDof P" "length (residual_m s) = numDof P"
      using assms(1) by (auto simp: sizedAsInit_def)
    let ?t = "foldl (recycleDof (timeStepSize P)) s [0..<length (storageJacobian_m s)]"
    have loop: "\<forall>i < numDof P. residual_m ?t ! i = vecScale (storageTerm_m s ! i) (- 1)"
      using recycle_loop[of "numDof P" s "timeStepSize P"] lens by auto
    have "assemble_m P s = Inr (?t\<lparr>reuseLinearization_m := False, oldDt_m := timeStepSize P\<rparr>)"
      using True by (rule assemble_m_recycled)
    then have "residual_m s' = residual_m ?t"
      using assms(3) True by (auto simp: assemble_def Let_def)
    then show ?thesis using loop assms(2) by simp
  qed
  then show ?thesis using True rs by simp
qed

text \<open>
  On the coloured chain the linearization is not reused: the residual of degree of freedom
  2 is reset and then gets the residual 1 from each of the elements 1 and 2. On the
  assembled chain with the reuse flag set, nothing is reset and the residual of degree of
  freedom 2 becomes the cached storage term 4 times \<open>- 1\<close>.
\<close>

theorem assemble_resets_residual_unless_reused_witness:
  "sizedAsInit chainProblem chainColored \<and> 2 < numDof chainProblem \<and>
   \<not> reuseLinearization_m chainColored \<and>
   residual_m (resetSystem_m chainProblem chainColored) = [[0], [0], [0], [0]] \<and>
   (\<exists>s'. assemble chainProblem chainColored = Inr s' \<and> residual_m s' ! 2 = [2]) \<and>
   sizedAsInit chainProblem (setLinearizationReusable chainProblem True chainAssembled) \<and>
   reuseLinearization_m (setLinearizationReusable chainProblem True chainAssembled) \<and>
   enableLinearizationRecycling chainProblem \<and>
   (\<exists>s'. assemble chainProblem (setLinearizationReusable chainProblem True chainAssembled) = Inr s' \<and>
         residual_m s' ! 2 = [- 4])"
proof -
  obtain s' where s': "assemble chainProblem chainColored = Inr s'"
    using assemble_returns[of chainProblem chainColored] chain_evaluatorsSucceed by blast
  have hyps: "sizedAsInit chainProblem chainColored" "2 < numDof chainProblem"
    by (simp_all add: chainProblem_def chainColored_def sizedAsInit_def)
  have nr: "\<not> reuseLinearization_m chainColored" by (simp add: chainColored_def)
  from assemble_resets_residual_unless_reused[OF hyps s'] nr
  have a: "residual_m (resetSystem_m chainProblem chainColored) = [[0], [0], [0], [0]] \<and>
        residual_m s' ! 2 = [2]"
    by (simp add: chainColored_contributions) (simp add: chainColored_def vecAdd_def vecAssignZero_def)
  let ?r = "setLinearizationReusable chainProblem True chainAssembled"
  have rhyps: "sizedAsInit chainProblem ?r" "reuseLinearization_m ?r"
    "enableLinearizationRecycling chainProblem"
    by (simp_all add: chainProblem_def chainAssembled_def sizedAsInit_def setLinearizationReusable_def)
  obtain r' where r': "assemble chainProblem ?r = Inr r'"
    using assemble_returns[of chainProblem ?r] rhyps(2) by blast
  from assemble_resets_residual_unless_reused[OF rhyps(1) hyps(2) r'] rhyps(2,3)
  have b: "residual_m r' ! 2 = [- 4]"
    by (simp add: setLinearizationReusable_def chainProblem_def chainAssembled_def vecScale_def)
  from a b hyps nr s' r' rhyps show ?thesis by simp
qed

text \<open>
  Claim C5 as stated fails on the recycling path: with the reuse flag set on the assembled
  chain, \<^verbatim>\<open>resetSystem_\<close> leaves the residual \<open>1, 2, 2, 1\<close> of the last assembly
  in place.
\<close>

theorem resetSystem_keeps_residual_when_reused:
  "reuseLinearization_m (setLinearizationReusable chainProblem True chainAssembled) \<and>
   residual_m (resetSystem_m chainProblem (setLinearizationReusable chainProblem True chainAssembled))
     = [[1], [2], [2], [1]] \<and>
   residual_m (resetSystem_m chainProblem (setLinearizationReusable chainProblem True chainAssembled))
     \<noteq> map vecAssignZero (residual_m (setLinearizationReusable chainProblem True chainAssembled))"
  by (simp add: setLinearizationReusable_def chainProblem_def chainAssembled_def resetSystem_m_def
        vecAssignZero_def)

subsection \<open>The chain, assembled\<close>

lemmas assemble_defs = assemble_def assemble_m_def resetSystem_m_def resetRow_def resetStorage_def
  assembleElement_m_def assembleGreenElement_m_def addGreenResidual_def assemblePrimaryDof_def
  addPrimaryResidual_def addPrimaryJacobian_def addJacobianBlock_def dofColor_def
  vecAdd_def matAdd_def vecAssignZero_def matAssignZero_def

lemma chain_first_assemble: "assemble chainProblem chainInitial = Inr chainAssembled"
  by (simp add: assemble_defs chainProblem_def chainInitial_def chainAssembled_def
      upt_small Let_def unitResidual_def unitJacobian_def)
     (auto simp: fun_eq_iff chainMatrix_def)

lemma chainSettled_computed:
  "computeColors chainProblem (1 / 2) chainAssembled = chainSettled"
  by (simp add: computeColors_defs chainProblem_def chainAssembled_def chainSettled_def
        upt_small Let_def)

subsection \<open>The accuracy reported after assembling\<close>

lemma assemble_accuracy:
  fixes P :: "'a::{zero,one,uminus,plus,minus,times,inverse} problem"
  assumes "assemble P s = Inr s'"
  shows "relinearizationAccuracy s' =
           (if \<not> reuseLinearization_m s \<and> enablePartialRelinearization P
            then nextRelinearizationAccuracy_m s else relinearizationAccuracy_m s)"
proof -
  from assms obtain t where t: "assemble_m P s = Inr t"
    and s': "s' = (if \<not> reuseLinearization_m s \<and> enablePartialRelinearization P
               then t\<lparr>relinearizationAccuracy_m := nextRelinearizationAccuracy_m t\<rparr> else t)
              \<lparr>dofColor_m := map (\<lambda>_. Green) (dofColor_m t)\<rparr>"
    by (rule assemble_Inr)
  have n: "nextRelinearizationAccuracy_m t = nextRelinearizationAccuracy_m s"
    by (rule assemble_m_colors(4)[OF t])
  have "relinearizationAccuracy_m t = relinearizationAccuracy_m s"
  proof -
    let ?s0 = "resetSystem_m P s"
    have r: "sameColors s ?s0" by (rule sameColors_resetSystem)
    show ?thesis
    proof (cases "reuseLinearization_m ?s0")
      case True
      then have "t = (foldl (recycleDof (timeStepSize P)) ?s0 [0..<length (storageJacobian_m ?s0)])
                     \<lparr>reuseLinearization_m := False, oldDt_m := timeStepSize P\<rparr>"
        using t by (simp add: assemble_m_def Let_def)
      moreover have "sameColors ?s0 (foldl (recycleDof (timeStepSize P)) ?s0 [0..<length (storageJacobian_m ?s0)])"
        by (rule sameColors_foldl) (rule sameColors_recycleDof)
      ultimately show ?thesis using r by (simp add: sameColors_def)
    next
      case False
      then have "assembleElements P (?s0\<lparr>oldDt_m := timeStepSize P, greenElems_m := 0\<rparr>)
                 [0..<length (gridElements P)] = Inr t"
        using t by (simp add: assemble_m_def Let_def)
      from sameColors_assembleElements[OF this] r show ?thesis by (simp add: sameColors_def)
    qed
  qed
  then show ?thesis using n by (simp add: s' relinearizationAccuracy_def)
qed

lemma chainErrors_colored:
  "dofColor_m (computeColors chainProblem (1 / 2) (chainAssembled\<lparr>dofError_m := [1, 1 / 4, 1 / 8, 0]\<rparr>))
     = [Red, Red, Green, Green]"
  "dofError_m (computeColors chainProblem (1 / 2) (chainAssembled\<lparr>dofError_m := [1, 1 / 4, 1 / 8, 0]\<rparr>))
     = [0, 0, 1 / 8, 0]"
  "nextRelinearizationAccuracy_m
     (computeColors chainProblem (1 / 2) (chainAssembled\<lparr>dofError_m := [1, 1 / 4, 1 / 8, 0]\<rparr>)) = 1 / 4"
  "reuseLinearization_m
     (computeColors chainProblem (1 / 2) (chainAssembled\<lparr>dofError_m := [1, 1 / 4, 1 / 8, 0]\<rparr>)) = False"
  by (simp_all add: computeColors_defs chainProblem_def chainAssembled_def upt_small Let_def)

text \<open>
  Claim C4 at a failing input. On the assembled chain with the errors \<open>1, 1/4, 1/8, 0\<close>,
  \<^verbatim>\<open>computeColors(1/2)\<close> leaves the degrees of freedom 2 and 3 green, with the
  errors \<open>1/8\<close> and \<open>0\<close>; degree of freedom 1, with the error \<open>1/4\<close>, is tinted orange
  and promoted to red. The \<^verbatim>\<open>assemble\<close> that follows does not reuse the
  linearization, and \<^verbatim>\<open>relinearizationAccuracy()\<close> then returns \<open>1/4\<close>, the
  error of the red degree of freedom 1, while the largest error of a green degree of
  freedom is \<open>1/8\<close>.
\<close>

theorem relinearizationAccuracy_counts_promoted_dof:
  "dofColor_m (computeColors chainProblem (1 / 2) (chainAssembled\<lparr>dofError_m := [1, 1 / 4, 1 / 8, 0]\<rparr>))
     = [Red, Red, Green, Green] \<and>
   largestGreenError (computeColors chainProblem (1 / 2) (chainAssembled\<lparr>dofError_m := [1, 1 / 4, 1 / 8, 0]\<rparr>))
     = 1 / 8 \<and>
   (\<exists>s'. assemble chainProblem
            (computeColors chainProblem (1 / 2) (chainAssembled\<lparr>dofError_m := [1, 1 / 4, 1 / 8, 0]\<rparr>)) = Inr s' \<and>
         relinearizationAccuracy s' = 1 / 4)"
proof -
  let ?c = "computeColors chainProblem (1 / 2) (chainAssembled\<lparr>dofError_m := [1, 1 / 4, 1 / 8, 0]\<rparr>)"
  obtain s' where s': "assemble chainProblem ?c = Inr s'"
    using assemble_returns[of chainProblem ?c] chain_evaluatorsSucceed by blast
  have "relinearizationAccuracy s' = 1 / 4"
    using assemble_accuracy[OF s'] chainErrors_colored(3,4) chain_wf(1) by simp
  moreover have "largestGreenError ?c = 1 / 8"
    by (simp add: largestGreenError_def chainErrors_colored upt_small stdMax_def)
  ultimately show ?thesis using s' chainErrors_colored(1) by simp
qed

subsection \<open>Marking a degree of freedom red\<close>

text \<open>
  Claim C6 at a failing input. On the settled chain, where every element is green,
  \<^verbatim>\<open>markDofRed(1)\<close> followed by \<^verbatim>\<open>assemble\<close> resets row 1 of the matrix,
  because degree of freedom 1 is not green, and then treats the elements 0 and 1 as green
  elements, which only add to the residual: row 1 is left zero. With
  \<^verbatim>\<open>computeColors\<close> called between the two, or after \<^verbatim>\<open>relinearizeAll\<close>,
  the same row is recomputed to \<open>8, 16, 8\<close>.
\<close>

theorem markDofRed_then_assemble_zeroes_row:
  "dofColor chainProblem (markDofRed chainProblem 1 chainSettled) 1 = Red \<and>
   (\<exists>s'. assemble chainProblem (markDofRed chainProblem 1 chainSettled) = Inr s' \<and>
         matrix_m s' 1 0 = [[0]] \<and> matrix_m s' 1 1 = [[0]] \<and> matrix_m s' 1 2 = [[0]]) \<and>
   (\<exists>s'. assemble chainProblem
            (computeColors chainProblem (1 / 2) (markDofRed chainProblem 1 chainSettled)) = Inr s' \<and>
         matrix_m s' 1 0 = [[8]] \<and> matrix_m s' 1 1 = [[16]] \<and> matrix_m s' 1 2 = [[8]]) \<and>
   (\<exists>s'. assemble chainProblem (relinearizeAll chainProblem chainSettled) = Inr s' \<and>
         matrix_m s' 1 0 = [[8]] \<and> matrix_m s' 1 1 = [[16]] \<and> matrix_m s' 1 2 = [[8]])"
  by (simp add: assemble_defs computeColors_defs markDofRed_def relinearizeAll_def
      chainProblem_def chainSettled_def chainAssembled_def
      chainMatrix_def upt_small Let_def unitResidual_def unitJacobian_def)

text \<open>
  On the coloured chain \<^verbatim>\<open>assemble\<close> turns the colours \<open>Red, Red, Green, Green\<close>
  of the degrees of freedom into green and leaves the colours \<open>Red, Yellow, Green\<close> of
  the elements; so it does on the recycling path.
\<close>

theorem assemble_resets_dof_colors_only_witness:
  "dofColor_m chainColored = [Red, Red, Green, Green] \<and>
   (\<exists>s'. assemble chainProblem chainColored = Inr s' \<and>
         dofColor_m s' = [Green, Green, Green, Green] \<and> dofColor chainProblem s' 0 = Green \<and>
         elementColor_m s' = [Red, Yellow, Green] \<and> elementColor chainProblem s' 1 = Yellow) \<and>
   (\<exists>s'. assemble chainProblem (setLinearizationReusable chainProblem True chainColored) = Inr s' \<and>
         dofColor_m s' = [Green, Green, Green, Green] \<and> elementColor_m s' = [Red, Yellow, Green])"
proof -
  obtain s' where s': "assemble chainProblem chainColored = Inr s'"
    using assemble_returns[of chainProblem chainColored] chain_evaluatorsSucceed by blast
  let ?r = "setLinearizationReusable chainProblem True chainColored"
  have "reuseLinearization_m ?r"
    by (simp add: setLinearizationReusable_def chainProblem_def)
  then obtain r' where r': "assemble chainProblem ?r = Inr r'"
    using assemble_returns[of chainProblem ?r] by blast
  from assemble_resets_dof_colors_only[OF s', of 0 True "[]"]
  have a: "dofColor_m s' = [Green, Green, Green, Green] \<and> dofColor chainProblem s' 0 = Green \<and>
         elementColor_m s' = [Red, Yellow, Green] \<and> elementColor chainProblem s' 1 = Yellow"
    by (simp add: chainColored_def chain_wf elementColor_def numeral_eq_Suc)
  from assemble_resets_dof_colors_only[OF r', of 0 True "[]"]
  have b: "dofColor_m r' = [Green, Green, Green, Green] \<and> elementColor_m r' = [Red, Yellow, Green]"
    by (simp add: chainColored_def setLinearizationReusable_def chainProblem_def numeral_eq_Suc)
  from a b s' r' show ?thesis by (simp add: chainColored_def)
qed

subsection \<open>Assembling without partial relinearization\<close>

lemma sameSystem_foldl:
  assumes "sameSystem s t" and "\<And>u v x. sameSystem u v \<Longrightarrow> sameSystem (f u x) (g v x)"
  shows "sameSystem (foldl f s xs) (foldl g t xs)"
  using assms(1)
proof (induction xs arbitrary: s t)
  case Nil
  then show ?case by simp
next
  case (Cons x xs)
  then show ?case using assms(2) by simp
qed

lemma sameSystem_primaryDof:
  assumes "\<not> enablePartialRelinearization P" and "sameSystem u v"
  shows "sameSystem (assemblePrimaryDof P e lj u d) (plainPrimaryDof P e lj v d)"
proof -
  let ?g = "stencilDofs e ! d"
  let ?u2 = "addPrimaryResidual P e lj u d"
  let ?u3 = "(if enableLinearizationRecycling P
              then ?u2\<lparr>storageJacobian_m :=
                      (storageJacobian_m ?u2)[?g := matAdd (storageJacobian_m ?u2 ! ?g)
                         (lj_jacobianStorage lj d)]\<rparr>
              else ?u2)"
  let ?v1 = "v\<lparr>residual_m := (residual_m v)[?g := vecAdd (residual_m v ! ?g) (lj_residual lj d)]\<rparr>"
  let ?v2 = "(if enableLinearizationRecycling P
              then ?v1\<lparr>storageTerm_m :=
                          (storageTerm_m ?v1)[?g := vecAdd (storageTerm_m ?v1 ! ?g)
                                                       (lj_residualStorage lj d)],
                        storageJacobian_m :=
                          (storageJacobian_m ?v1)[?g := matAdd (storageJacobian_m ?v1 ! ?g)
                                                           (lj_jacobianStorage lj d)]\<rparr>
              else ?v1)"
  have a: "sameSystem ?u3 ?v2"
    using assms(2) by (simp add: sameSystem_def addPrimaryResidual_def Let_def)
  have b: "assemblePrimaryDof P e lj u d =
             foldl (addJacobianBlock e lj d ?g) ?u3 [0..<length (stencilDofs e)]"
    using assms(1) by (simp add: assemblePrimaryDof_def addPrimaryJacobian_def dofColor_def Let_def)
  have c: "plainPrimaryDof P e lj v d =
             foldl (\<lambda>t dofIdx.
                  t\<lparr>matrix_m := (matrix_m t)(?g := (matrix_m t ?g)
                       (stencilDofs e ! dofIdx :=
                          matAdd (matrix_m t ?g (stencilDofs e ! dofIdx))
                                 (lj_jacobian lj d dofIdx)))\<rparr>) ?v2 [0..<length (stencilDofs e)]"
    by (simp add: plainPrimaryDof_def Let_def)
  show ?thesis
    unfolding b c
    by (rule sameSystem_foldl[OF a]) (simp add: sameSystem_def addJacobianBlock_def Let_def)
qed

lemma sameSystem_elements:
  assumes "\<not> enablePartialRelinearization P"
  shows "sameSystem u v \<Longrightarrow>
     (case (assembleElements P u ks, plainElements P v ks) of
        (Inr u', Inr v') \<Rightarrow> sameSystem u' v'
      | (Inl _, Inl _) \<Rightarrow> True
      | _ \<Rightarrow> False)"
proof (induction ks arbitrary: u v)
  case Nil
  then show ?case by simp
next
  case (Cons k ks)
  show ?case
  proof (cases "interior (gridElements P ! k)")
    case False
    then show ?thesis using Cons by simp
  next
    case True
    show ?thesis
    proof (cases "localJacobianAssemble P k")
      case (Inl e)
      then show ?thesis using True assms by (simp add: assembleElement_m_def)
    next
      case (Inr lj)
      let ?e = "gridElements P ! k"
      have "sameSystem (foldl (assemblePrimaryDof P ?e lj) u [0..<numPrimaryDof ?e])
                       (foldl (plainPrimaryDof P ?e lj) v [0..<numPrimaryDof ?e])"
        by (rule sameSystem_foldl[OF Cons.prems]) (rule sameSystem_primaryDof[OF assms])
      from Cons.IH[OF this] show ?thesis
        using True Inr assms by (simp add: assembleElement_m_def)
    qed
  qed
qed

lemma resetStorages_loop:
  fixes s :: "'a::zero assembler"
  assumes "n \<le> length (storageJacobian_m s)" "n \<le> length (storageTerm_m s)"
  shows "matrix_m (foldl resetStorage s [0..<n]) = matrix_m s \<and>
         residual_m (foldl resetStorage s [0..<n]) = residual_m s \<and>
         reuseLinearization_m (foldl resetStorage s [0..<n]) = reuseLinearization_m s \<and>
         oldDt_m (foldl resetStorage s [0..<n]) = oldDt_m s \<and>
         length (storageJacobian_m (foldl resetStorage s [0..<n])) = length (storageJacobian_m s) \<and>
         length (storageTerm_m (foldl resetStorage s [0..<n])) = length (storageTerm_m s) \<and>
         (\<forall>i < length (storageJacobian_m s). storageJacobian_m (foldl resetStorage s [0..<n]) ! i =
            (if i < n then matAssignZero (storageJacobian_m s ! i) else storageJacobian_m s ! i)) \<and>
         (\<forall>i < length (storageTerm_m s). storageTerm_m (foldl resetStorage s [0..<n]) ! i =
            (if i < n then vecAssignZero (storageTerm_m s ! i) else storageTerm_m s ! i))"
  using assms
proof (induction n)
  case 0
  then show ?case by simp
next
  case (Suc n)
  let ?t = "foldl resetStorage s [0..<n]"
  have IH: "matrix_m ?t = matrix_m s" "residual_m ?t = residual_m s"
    "reuseLinearization_m ?t = reuseLinearization_m s" "oldDt_m ?t = oldDt_m s"
    "length (storageJacobian_m ?t) = length (storageJacobian_m s)"
    "length (storageTerm_m ?t) = length (storageTerm_m s)"
    "\<forall>i < length (storageJacobian_m s). storageJacobian_m ?t ! i =
            (if i < n then matAssignZero (storageJacobian_m s ! i) else storageJacobian_m s ! i)"
    "\<forall>i < length (storageTerm_m s). storageTerm_m ?t ! i =
            (if i < n then vecAssignZero (storageTerm_m s ! i) else storageTerm_m s ! i)"
    using Suc by auto
  show ?case
    unfolding foldl_upt_Suc using IH Suc.prems
    by (auto simp: resetStorage_def nth_list_update less_Suc_eq)
qed

lemma resetSystem_plain:
  fixes s :: "'a::zero assembler"
  assumes "\<not> enablePartialRelinearization P" and "\<not> reuseLinearization_m s"
    and "sizedAsInit P s"
  shows "sameSystem (resetSystem_m P s) (plainReset P s)"
proof (cases "enableLinearizationRecycling P")
  case False
  then show ?thesis
    using assms by (simp add: resetSystem_m_def plainReset_def sameSystem_def Let_def)
next
  case True
  let ?s2 = "s\<lparr>residual_m := map vecAssignZero (residual_m s),
               matrix_m := (\<lambda>row col. matAssignZero (matrix_m s row col))\<rparr>"
  have lens: "numDof P \<le> length (storageJacobian_m ?s2)" "numDof P \<le> length (storageTerm_m ?s2)"
    "length (storageJacobian_m s) = numDof P" "length (storageTerm_m s) = numDof P"
    using True assms(3) by (auto simp: sizedAsInit_def)
  note loop = resetStorages_loop[OF lens(1,2)]
  let ?t = "foldl resetStorage ?s2 [0..<numDof P]"
  have sj: "storageJacobian_m ?t = map matAssignZero (storageJacobian_m s)"
    using loop lens(3) by (intro nth_equalityI) auto
  have st: "storageTerm_m ?t = map vecAssignZero (storageTerm_m s)"
    using loop lens(4) by (intro nth_equalityI) auto
  have rs: "resetSystem_m P s = ?t"
    using assms(1,2) True by (simp add: resetSystem_m_def Let_def)
  show ?thesis
    unfolding rs using loop sj st True
    by (simp add: plainReset_def sameSystem_def Let_def)
qed

lemma linearization_sameSystem: "sameSystem s t \<Longrightarrow> linearization s = linearization t"
  by (simp add: sameSystem_def linearization_def matrix_def residual_def)

lemma assemble_fullTraversal:
  fixes P :: "'a::{zero,one,uminus,plus,minus,times,inverse} problem"
  assumes "\<not> enablePartialRelinearization P" and "\<not> reuseLinearization_m s"
    and "sizedAsInit P s"
  shows "map_sum id linearization (assemble P s) = map_sum id linearization (fullTraversal P s)"
proof -
  let ?u = "(resetSystem_m P s)\<lparr>oldDt_m := timeStepSize P, greenElems_m := 0\<rparr>"
  let ?v = "(plainReset P s)\<lparr>oldDt_m := timeStepSize P\<rparr>"
  let ?ks = "[0..<length (gridElements P)]"
  have "sameSystem ?u ?v"
    using resetSystem_plain[OF assms] by (simp add: sameSystem_def)
  from sameSystem_elements[OF assms(1) this, of ?ks]
  have sim: "(case (assembleElements P ?u ?ks, plainElements P ?v ?ks) of
        (Inr u', Inr v') \<Rightarrow> sameSystem u' v'
      | (Inl _, Inl _) \<Rightarrow> True
      | _ \<Rightarrow> False)" .
  have nr: "\<not> reuseLinearization_m (resetSystem_m P s)"
    using sameColors_resetSystem[of s P] assms(2) by (simp add: sameColors_def)
  have am: "assemble_m P s = assembleElements P ?u ?ks"
    using nr by (simp add: assemble_m_def Let_def)
  show ?thesis
  proof (cases "assembleElements P ?u ?ks")
    case (Inl e)
    then obtain e' where "plainElements P ?v ?ks = Inl e'"
      using sim by (cases "plainElements P ?v ?ks") auto
    then show ?thesis
      using Inl am by (cases e') (simp add: assemble_def fullTraversal_def Let_def)
  next
    case (Inr u')
    then obtain v' where v': "plainElements P ?v ?ks = Inr v'" and ss: "sameSystem u' v'"
      using sim by (cases "plainElements P ?v ?ks") auto
    have "linearization (u'\<lparr>dofColor_m := map (\<lambda>_. Green) (dofColor_m u')\<rparr>) = linearization v'"
      using linearization_sameSystem[OF ss]
      by (simp add: linearization_def matrix_def residual_def)
    then show ?thesis
      using Inr v' am assms(1) by (simp add: assemble_def fullTraversal_def Let_def)
  qed
qed

lemma assemble_reused_plain:
  fixes P :: "'a::{zero,one,uminus,plus,minus,times,inverse} problem"
  assumes "reuseLinearization_m s"
  shows "map_sum id linearization (assemble P s) = map_sum id linearization (assembleNoColoring P s)"
  using assms assemble_m_recycled[OF assms, of P]
  by (simp add: assemble_def assembleNoColoring_def Let_def linearization_def matrix_def residual_def)

text \<open>
  Claim C8, as the code has it. With partial relinearization disabled, all four colour
  queries return red, whatever the index, and \<^verbatim>\<open>assemble\<close> produces the matrix,
  the residual and the caches (or the failure) of the assembler without colouring logic.
  It traverses all elements, evaluating the full local Jacobian of each, whenever the
  linearization is not reused; when the reuse flag is set it takes the recycling path,
  which traverses no element.
\<close>

theorem assemble_without_partial_relinearization:
  fixes P :: "'a::{zero,one,uminus,plus,minus,times,inverse} problem"
  assumes "\<not> enablePartialRelinearization P" and "sizedAsInit P s"
  shows "dofColor P s globalDofIdx = Red \<and> dofColorCtx P s elemCtx dofIdx = Red \<and>
         elementColor P s globalElementIdx = Red \<and> elementColorOf P s elementMapper elem = Red \<and>
         map_sum id linearization (assemble P s) = map_sum id linearization (assembleNoColoring P s) \<and>
         (\<not> reuseLinearization_m s \<longrightarrow>
            map_sum id linearization (assemble P s) = map_sum id linearization (fullTraversal P s))"
proof -
  have q: "dofColor P s globalDofIdx = Red \<and> dofColorCtx P s elemCtx dofIdx = Red \<and>
         elementColor P s globalElementIdx = Red \<and> elementColorOf P s elementMapper elem = Red"
    using assms(1) by (simp add: dofColor_def dofColorCtx_def elementColor_def elementColorOf_def)
  have f: "\<not> reuseLinearization_m s \<Longrightarrow>
            map_sum id linearization (assemble P s) = map_sum id linearization (fullTraversal P s)"
    by (rule assemble_fullTraversal[OF assms(1) _ assms(2)])
  have a: "map_sum id linearization (assemble P s) = map_sum id linearization (assembleNoColoring P s)"
  proof (cases "reuseLinearization_m s")
    case True
    then show ?thesis by (rule assemble_reused_plain)
  next
    case False
    then show ?thesis using f by (simp add: assembleNoColoring_def)
  qed
  show ?thesis using q a f by simp
qed

lemmas plain_defs = fullTraversal_def plainReset_def plainPrimaryDof_def residual_def matrix_def
  linearization_def

lemma plainChain_fullTraversal:
  "map_sum id residual (fullTraversal plainChainProblem plainChainAssembled) = Inr [[1], [2], [2], [1]]"
  "map_sum id residual (fullTraversal plainChainProblem
      (setLinearizationReusable plainChainProblem True plainChainAssembled)) = Inr [[1], [2], [2], [1]]"
  by (simp_all add: plain_defs plainChainProblem_def plainChainAssembled_def chainProblem_def
        chainAssembled_def setLinearizationReusable_def upt_small Let_def unitJacobian_def
        vecAdd_def matAdd_def vecAssignZero_def matAssignZero_def)

lemma plainChain_recycled:
  "map_sum id residual (assemble plainChainProblem
      (setLinearizationReusable plainChainProblem True plainChainAssembled)) = Inr [[- 2], [- 4], [- 4], [- 2]]"
  by (simp add: assemble_defs residual_def recycleDof_def plainChainProblem_def plainChainAssembled_def
        chainProblem_def chainAssembled_def setLinearizationReusable_def upt_small Let_def
        vecScale_def matScale_def matSub_def)

lemma residual_of_linearization:
  "map_sum id linearization x = map_sum id linearization y \<Longrightarrow>
   map_sum id residual x = map_sum id residual y"
  by (cases x; cases y) (simp_all add: linearization_def)

text \<open>
  On the chain without partial relinearization, \<^verbatim>\<open>assemble\<close> computes the residual
  \<open>1, 2, 2, 1\<close> of the full traversal.
\<close>

theorem assemble_without_partial_relinearization_witness:
  "\<not> enablePartialRelinearization plainChainProblem \<and>
   sizedAsInit plainChainProblem plainChainAssembled \<and>
   \<not> reuseLinearization_m plainChainAssembled \<and>
   dofColor plainChainProblem plainChainAssembled 2 = Red \<and>
   dofColorCtx plainChainProblem plainChainAssembled (gridElements plainChainProblem ! 0) 1 = Red \<and>
   elementColor plainChainProblem plainChainAssembled 1 = Red \<and>
   elementColorOf plainChainProblem plainChainAssembled id 1 = Red \<and>
   map_sum id linearization (assemble plainChainProblem plainChainAssembled) =
     map_sum id linearization (assembleNoColoring plainChainProblem plainChainAssembled) \<and>
   map_sum id residual (assemble plainChainProblem plainChainAssembled) = Inr [[1], [2], [2], [1]]"
proof -
  have hyps: "\<not> enablePartialRelinearization plainChainProblem"
    "sizedAsInit plainChainProblem plainChainAssembled"
    and nr: "\<not> reuseLinearization_m plainChainAssembled"
    by (simp_all add: plainChainProblem_def plainChainAssembled_def chainProblem_def
          chainAssembled_def sizedAsInit_def)
  note t = assemble_without_partial_relinearization[OF hyps, of 2 "gridElements plainChainProblem ! 0" 1 1 id 1]
  from t nr have "map_sum id linearization (assemble plainChainProblem plainChainAssembled) =
     map_sum id linearization (fullTraversal plainChainProblem plainChainAssembled)"
    by blast
  from residual_of_linearization[OF this]
  have "map_sum id residual (assemble plainChainProblem plainChainAssembled) = Inr [[1], [2], [2], [1]]"
    by (simp add: plainChain_fullTraversal)
  with t hyps nr show ?thesis by blast
qed

text \<open>
  Claim C8 as stated fails where the linearization is recycled: with partial
  relinearization disabled and the reuse flag set, \<^verbatim>\<open>assemble\<close> traverses no
  element and leaves the residual \<open>- 2, - 4, - 4, - 2\<close> of the recycling path, where a
  traversal of all elements computes \<open>1, 2, 2, 1\<close>.
\<close>

theorem assemble_recycles_without_traversal:
  "\<not> enablePartialRelinearization plainChainProblem \<and>
   sizedAsInit plainChainProblem (setLinearizationReusable plainChainProblem True plainChainAssembled) \<and>
   map_sum id residual (assemble plainChainProblem
      (setLinearizationReusable plainChainProblem True plainChainAssembled)) = Inr [[- 2], [- 4], [- 4], [- 2]] \<and>
   map_sum id residual (fullTraversal plainChainProblem
      (setLinearizationReusable plainChainProblem True plainChainAssembled)) = Inr [[1], [2], [2], [1]] \<and>
   map_sum id linearization (assemble plainChainProblem
      (setLinearizationReusable plainChainProblem True plainChainAssembled)) \<noteq>
   map_sum id linearization (fullTraversal plainChainProblem
      (setLinearizationReusable plainChainProblem True plainChainAssembled))"
proof -
  let ?s = "setLinearizationReusable plainChainProblem True plainChainAssembled"
  have a: "\<not> enablePartialRelinearization plainChainProblem"
    "sizedAsInit plainChainProblem ?s"
    by (simp_all add: plainChainProblem_def plainChainAssembled_def chainProblem_def
          chainAssembled_def sizedAsInit_def setLinearizationReusable_def)
  have "map_sum id residual (assemble plainChainProblem ?s) \<noteq>
        map_sum id residual (fullTraversal plainChainProblem ?s)"
    by (simp add: plainChain_recycled plainChain_fullTraversal)
  then have "map_sum id linearization (assemble plainChainProblem ?s) \<noteq>
             map_sum id linearization (fullTraversal plainChainProblem ?s)"
    using residual_of_linearization by blast
  with a show ?thesis by (simp add: plainChain_recycled plainChain_fullTraversal)
qed

subsection \<open>Rounding to a double\<close>

text \<open>
  The exponent found by counting is the binary exponent of the number, cut off at the
  smallest and the largest exponent of a normal double.
\<close>

lemma exponentFrom_bounds:
  "e \<le> exponentFrom n e a \<and> exponentFrom n e a \<le> e + int n"
proof (induction n arbitrary: e)
  case 0
  then show ?case by simp
next
  case (Suc n)
  show ?case using Suc.IH[of "e + 1"] by simp
qed

lemma exponentFrom_lower:
  "e < exponentFrom n e a \<Longrightarrow> 2 powi (exponentFrom n e a) \<le> a"
proof (induction n arbitrary: e)
  case 0
  then show ?case by simp
next
  case (Suc n)
  show ?case
  proof (cases "2 powi (e + 1) \<le> a")
    case True
    then have eq: "exponentFrom (Suc n) e a = exponentFrom n (e + 1) a" by simp
    show ?thesis
    proof (cases "e + 1 < exponentFrom n (e + 1) a")
      case True
      then show ?thesis using Suc.IH[of "e + 1"] eq by simp
    next
      case False
      then have "exponentFrom n (e + 1) a = e + 1"
        using exponentFrom_bounds[of "e + 1" n a] by simp
      then show ?thesis using eq \<open>2 powi (e + 1) \<le> a\<close> by simp
    qed
  next
    case False
    then show ?thesis using Suc.prems by simp
  qed
qed

lemma exponentFrom_upper:
  "exponentFrom n e a < e + int n \<Longrightarrow> a < 2 powi (exponentFrom n e a + 1)"
proof (induction n arbitrary: e)
  case 0
  then show ?case by simp
next
  case (Suc n)
  show ?case
  proof (cases "2 powi (e + 1) \<le> a")
    case True
    then have eq: "exponentFrom (Suc n) e a = exponentFrom n (e + 1) a" by simp
    then have "exponentFrom n (e + 1) a < (e + 1) + int n" using Suc.prems by simp
    then show ?thesis using Suc.IH[of "e + 1"] eq by simp
  next
    case False
    then show ?thesis by simp
  qed
qed

lemma exponent_range: "- 1022 \<le> exponent r" "exponent r \<le> 1023"
  using exponentFrom_bounds[of "- 1022" 2045 "\<bar>r\<bar>"] by (simp_all add: exponent_def)

lemma exponent_lower: "- 1022 < exponent r \<Longrightarrow> 2 powi (exponent r) \<le> \<bar>r\<bar>"
  using exponentFrom_lower[of "- 1022" 2045 "\<bar>r\<bar>"] by (simp add: exponent_def)

lemma exponent_upper: "exponent r < 1023 \<Longrightarrow> \<bar>r\<bar> < 2 powi (exponent r + 1)"
  using exponentFrom_upper[of 2045 "- 1022" "\<bar>r\<bar>"] by (simp add: exponent_def)

lemma powi_mono: "a \<le> b \<Longrightarrow> (2::real) powi a \<le> 2 powi b"
  by (rule power_int_increasing) simp_all

lemma powi_strict_mono: "a < b \<Longrightarrow> (2::real) powi a < 2 powi b"
  by (rule power_int_strict_increasing) simp_all

lemma exponent_eq:
  assumes "- 1022 \<le> e" and "e \<le> 1023" and "2 powi e \<le> \<bar>r\<bar>" and "\<bar>r\<bar> < 2 powi (e + 1)"
  shows "exponent r = e"
proof (rule antisym)
  show "exponent r \<le> e"
  proof (rule ccontr)
    assume "\<not> exponent r \<le> e"
    then have le: "e + 1 \<le> exponent r" by simp
    then have "(2::real) powi (e + 1) \<le> 2 powi (exponent r)" by (rule powi_mono)
    moreover have "2 powi (exponent r) \<le> \<bar>r\<bar>"
      using exponent_lower[of r] le assms(1) by linarith
    ultimately show False using assms(4) by linarith
  qed
  show "e \<le> exponent r"
  proof (rule ccontr)
    assume "\<not> e \<le> exponent r"
    then have lt: "exponent r + 1 \<le> e" by simp
    then have "\<bar>r\<bar> < 2 powi (exponent r + 1)"
      using exponent_upper[of r] assms(2) by linarith
    moreover have "(2::real) powi (exponent r + 1) \<le> 2 powi e" using lt by (rule powi_mono)
    ultimately show False using assms(3) by linarith
  qed
qed

lemma exponent_large: "2 powi 1023 \<le> \<bar>r\<bar> \<Longrightarrow> exponent r = 1023"
proof (rule ccontr)
  assume a: "2 powi 1023 \<le> \<bar>r\<bar>" and "exponent r \<noteq> 1023"
  then have lt: "exponent r < 1023" using exponent_range(2)[of r] by linarith
  then have "\<bar>r\<bar> < 2 powi (exponent r + 1)" by (rule exponent_upper)
  moreover have "(2::real) powi (exponent r + 1) \<le> 2 powi 1023"
    by (rule powi_mono) (use lt in linarith)
  ultimately show False using a by linarith
qed

lemma exponent_small: "\<bar>r\<bar> < 2 powi (- 1022) \<Longrightarrow> exponent r = - 1022"
proof (rule ccontr)
  assume a: "\<bar>r\<bar> < 2 powi (- 1022)" and "exponent r \<noteq> - 1022"
  then have gt: "- 1022 < exponent r" using exponent_range(1)[of r] by linarith
  then have "2 powi (exponent r) \<le> \<bar>r\<bar>" by (rule exponent_lower)
  moreover have "(2::real) powi (- 1022) \<le> 2 powi (exponent r)"
    by (rule powi_mono) (use gt in linarith)
  ultimately show False using a by linarith
qed

lemma roundHalfEven_of_int: "roundHalfEven (of_int n) = n"
  by (simp add: roundHalfEven_def)


lemma roundHalfEven_ge:
  assumes "of_int n - 1 / 2 \<le> q" and "even n"
  shows "n \<le> roundHalfEven q"
proof (cases "n \<le> \<lfloor>q\<rfloor>")
  case True
  then show ?thesis by (simp add: roundHalfEven_def)
next
  case False
  have "of_int (n - 1) \<le> q" using assms(1) by simp
  then have "n - 1 \<le> \<lfloor>q\<rfloor>" by (simp only: le_floor_iff)
  then have fl: "\<lfloor>q\<rfloor> = n - 1" using False by simp
  then have "odd \<lfloor>q\<rfloor>" using assms(2) by simp
  moreover have "1 / 2 \<le> q - of_int \<lfloor>q\<rfloor>" using assms(1) fl by simp
  ultimately show ?thesis using fl by (simp add: roundHalfEven_def)
qed

text \<open>
  A number \<open>m * 2^k\<close> with a significand below \<open>2^53\<close>, an exponent of at least
  \<open>-1074\<close> and a magnitude below \<open>2^1024\<close> is a double: rounding leaves it as it is.
\<close>

lemma fromReal_exact:
  assumes r: "r = of_int m * 2 powi k" and m: "\<bar>m\<bar> < 2 ^ 53" and k: "- 1074 \<le> k"
    and fin: "\<bar>r\<bar> < 2 ^ 1024"
  shows "fromReal r = Finite r"
proof -
  have le: "exponent r - 52 \<le> k"
  proof (cases "- 1022 < exponent r")
    case False
    then show ?thesis using k by simp
  next
    case True
    then have "2 powi (exponent r) \<le> \<bar>r\<bar>" by (rule exponent_lower)
    moreover have "\<bar>r\<bar> = of_int \<bar>m\<bar> * 2 powi k" by (simp add: r abs_mult)
    moreover have "of_int \<bar>m\<bar> * (2::real) powi k < 2 ^ 53 * 2 powi k"
    proof -
      have "(of_int \<bar>m\<bar> :: real) < of_int (2 ^ 53)" using m by (simp only: of_int_less_iff)
      then have "(of_int \<bar>m\<bar> :: real) < 2 ^ 53" by simp
      then show ?thesis by (simp only: mult_strict_right_mono zero_less_power_int zero_less_numeral)
    qed
    moreover have "(2::real) ^ 53 * 2 powi k = 2 powi (53 + k)"
      by (simp add: power_int_add)
    ultimately have "(2::real) powi (exponent r) < 2 powi (53 + k)" by linarith
    then have "exponent r < 53 + k"
      using powi_mono[of "53 + k" "exponent r"] by linarith
    then show ?thesis by simp
  qed
  define j where "j = nat (k - (exponent r - 52))"
  define u where "u = (2::real) powi (exponent r - 52)"
  have upos: "0 < u" by (simp add: u_def)
  have ulp: "ulp r = u" by (simp add: ulp_def u_def)
  have kj: "k = (exponent r - 52) + int j" using le by (simp add: j_def)
  have "(2::real) powi k = u * 2 ^ j"
    unfolding u_def by (subst kj, subst power_int_add) simp_all
  then have "of_int m * 2 powi k = of_int (m * 2 ^ j) * u" by simp
  then have rr: "r = of_int (m * 2 ^ j) * u" using r by (simp only:)
  have "r / u = of_int (m * 2 ^ j)" using upos by (subst rr) simp
  then have "roundHalfEven (r / ulp r) = m * 2 ^ j"
    by (simp only: ulp roundHalfEven_of_int)
  then have "roundToNearest r = of_int (m * 2 ^ j) * u"
    by (simp only: roundToNearest_def ulp)
  also have "\<dots> = r" by (simp only: rr)
  finally have "roundToNearest r = r" .
  then show ?thesis using fin unfolding fromReal_def by (simp only:) (auto simp: abs_less_iff)
qed

text \<open>
  Overflow: the largest double is \<open>2^1024 - 2^971\<close>, and every number from
  \<open>2^1024 - 2^970\<close>, half-way to \<open>2^1024\<close>, is rounded to infinity.
\<close>

lemma fromReal_overflow:
  assumes "2 ^ 1024 - 2 ^ 970 \<le> r"
  shows "fromReal r = PosInf"
proof -
  have "(2::real) powi 1023 \<le> 2 ^ 1024 - 2 ^ 970" by simp
  then have "2 powi 1023 \<le> \<bar>r\<bar>" using assms by linarith
  then have e: "exponent r = 1023" by (rule exponent_large)
  then have u: "ulp r = 2 ^ 971" by (simp add: ulp_def)
  have "(of_int (2 ^ 53) :: real) - 1 / 2 = (2 ^ 1024 - 2 ^ 970) / 2 ^ 971" by simp
  also have "\<dots> \<le> r / 2 ^ 971" using assms by (simp only: divide_right_mono zero_le_power zero_le_numeral)
  finally have "(of_int (2 ^ 53) :: real) - 1 / 2 \<le> r / ulp r" by (simp only: u)
  then have "2 ^ 53 \<le> roundHalfEven (r / ulp r)" by (rule roundHalfEven_ge) simp
  then have "(of_int (2 ^ 53) :: real) \<le> of_int (roundHalfEven (r / ulp r))"
    by (simp only: of_int_le_iff)
  then have "(of_int (2 ^ 53) :: real) * 2 ^ 971 \<le> of_int (roundHalfEven (r / ulp r)) * 2 ^ 971"
    by (simp only: mult_right_mono zero_le_power zero_le_numeral)
  then have "(2::real) ^ 1024 \<le> roundToNearest r"
    unfolding roundToNearest_def u by simp
  then show ?thesis by (simp only: fromReal_def if_True)
qed

lemma fromReal_of_int: "\<bar>n\<bar> < 2 ^ 53 \<Longrightarrow> fromReal (of_int n) = Finite (of_int n)"
proof -
  assume n: "\<bar>n\<bar> < 2 ^ 53"
  then have "\<bar>n\<bar> < 2 ^ 1024" by simp
  then have "(of_int \<bar>n\<bar> :: real) < of_int (2 ^ 1024)" by (simp only: of_int_less_iff)
  then have "\<bar>of_int n :: real\<bar> < 2 ^ 1024" by simp
  then show ?thesis using fromReal_exact[of "of_int n" n 0] n by simp
qed

lemma fromReal_power2: "k \<le> 1023 \<Longrightarrow> fromReal (2 ^ k) = Finite (2 ^ k)"
proof -
  assume "k \<le> 1023"
  then have "k < 1024" by simp
  then have "(2::real) ^ k < 2 ^ 1024" by (rule power_strict_increasing) simp
  then show ?thesis using fromReal_exact[of "2 ^ k" 1 "int k"] by simp
qed

text \<open>
  Rounding at a known exponent, to evaluate \<open>fromReal\<close> on a given number.
\<close>

lemma fromReal_rounded:
  assumes "- 1022 \<le> e" and "e \<le> 1023" and "2 powi e \<le> \<bar>r\<bar>" and "\<bar>r\<bar> < 2 powi (e + 1)"
    and "roundHalfEven (r / 2 powi (e - 52)) = n"
    and "\<bar>of_int n * 2 powi (e - 52)\<bar> < (2::real) ^ 1024"
  shows "fromReal r = Finite (of_int n * 2 powi (e - 52))"
proof -
  have "exponent r = e" using assms(1-4) by (rule exponent_eq)
  then have "roundToNearest r = of_int n * 2 powi (e - 52)"
    using assms(5) by (simp add: roundToNearest_def ulp_def)
  then show ?thesis using assms(6) unfolding fromReal_def by (simp only:) (auto simp: abs_less_iff)
qed

text \<open>
  Rounding gives a double, so the sums, products and differences of scalars are doubles.
\<close>

lemma powi_shift53: "(2::real) powi (e + 1) = 2 ^ 53 * 2 powi (e - 52)"
proof -
  have "(2::real) powi (53 + (e - 52)) = 2 powi 53 * 2 powi (e - 52)"
    by (rule power_int_add) simp
  moreover have "53 + (e - 52) = e + 1" by simp
  ultimately have "(2::real) powi (e + 1) = 2 powi 53 * 2 powi (e - 52)" by (simp only:)
  then show ?thesis by (simp only: power_int_numeral)
qed

lemma roundHalfEven_between: "\<lfloor>q\<rfloor> \<le> roundHalfEven q \<and> roundHalfEven q \<le> \<lceil>q\<rceil>"
  by (auto simp: roundHalfEven_def ceiling_altdef)

lemma roundHalfEven_abs_le:
  assumes "\<bar>q\<bar> \<le> of_int N"
  shows "\<bar>roundHalfEven q\<bar> \<le> N"
proof -
  have "of_int (- N) \<le> q" and "q \<le> of_int N" using assms by simp_all
  then have "- N \<le> \<lfloor>q\<rfloor>" and "\<lceil>q\<rceil> \<le> N"
    by (simp_all only: le_floor_iff ceiling_le_iff)
  then show ?thesis using roundHalfEven_between[of q] by arith
qed

lemma fromReal_cases:
  "fromReal r = Finite d \<Longrightarrow> d = roundToNearest r \<and> \<bar>d\<bar> < 2 ^ 1024"
  by (auto simp: fromReal_def abs_less_iff split: if_splits)

lemma fromReal_idem:
  assumes "fromReal r = Finite d"
  shows "fromReal d = Finite d"
proof -
  define e where "e = exponent r"
  define u where "u = (2::real) powi (e - 52)"
  define n where "n = roundHalfEven (r / u)"
  have upos: "0 < u" by (simp add: u_def)
  have d: "d = of_int n * u"
    using fromReal_cases[OF assms] by (simp add: roundToNearest_def ulp_def n_def u_def e_def)
  have fin: "\<bar>d\<bar> < 2 ^ 1024"
    by (rule conjunct2[OF fromReal_cases[OF assms]])
  have range: "- 1022 \<le> e" "e \<le> 1023" using exponent_range[of r] by (simp_all add: e_def)
  have nle: "\<bar>n\<bar> \<le> 2 ^ 53"
  proof (cases "e < 1023")
    case True
    then have "\<bar>r\<bar> < 2 powi (e + 1)" unfolding e_def by (rule exponent_upper)
    moreover have "(2::real) powi (e + 1) = 2 ^ 53 * u"
      unfolding u_def by (rule powi_shift53)
    ultimately have "\<bar>r\<bar> < 2 ^ 53 * u" by simp
    then have "\<bar>r\<bar> / u < 2 ^ 53" using upos by (simp add: pos_divide_less_eq)
    then have "\<bar>r / u\<bar> \<le> of_int (2 ^ 53)" using upos by simp
    then show ?thesis unfolding n_def by (rule roundHalfEven_abs_le)
  next
    case False
    then have "e = 1023" using range by simp
    then have "u = 2 ^ 971" by (simp add: u_def)
    then have "\<bar>of_int n :: real\<bar> * 2 ^ 971 < 2 ^ 1024" using fin d by (simp add: abs_mult)
    then have "\<bar>of_int n :: real\<bar> < 2 ^ 53" by simp
    then have "(of_int \<bar>n\<bar> :: real) < of_int (2 ^ 53)" by simp
    then have "\<bar>n\<bar> < 2 ^ 53" by (simp only: of_int_less_iff)
    then show ?thesis by simp
  qed
  show ?thesis
  proof (cases "\<bar>n\<bar> < 2 ^ 53")
    case True
    then show ?thesis using fromReal_exact[of d n "e - 52"] d fin range by (simp add: u_def)
  next
    case False
    then have "n = 2 ^ 53 \<or> n = - (2 ^ 53)" using nle by linarith
    moreover have p: "(2::real) ^ 53 * u = 2 powi (e + 1)"
      unfolding u_def by (rule powi_shift53[symmetric])
    ultimately have "d = of_int 1 * 2 powi (e + 1) \<or> d = of_int (- 1) * 2 powi (e + 1)"
      using d by auto
    then show ?thesis
      using fromReal_exact[of d 1 "e + 1"] fromReal_exact[of d "- 1" "e + 1"] fin range by auto
  qed
qed

lemma fromReal_isDouble: "isDouble (fromReal r)"
  by (cases "fromReal r") (simp_all add: fromReal_idem)

lemma scalarAdd_isDouble: "isDouble (scalarAdd x y)"
  by (cases x; cases y) (simp_all add: fromReal_isDouble)

lemma scalarMul_isDouble: "isDouble (scalarMul x y)"
  by (cases x; cases y) (simp_all add: scalarMul_def fromReal_isDouble)

lemma scalarSub_isDouble: "isDouble (scalarSub x y)"
  by (simp add: scalarSub_def scalarAdd_isDouble)

text \<open>
  Below \<open>2^1024 - 2^970\<close> in magnitude nothing overflows, so a sum or product of
  non-negative numbers overflows exactly from that bound.
\<close>

lemma roundHalfEven_le:
  assumes "q < of_int n + 1 / 2"
  shows "roundHalfEven q \<le> n"
proof (cases "\<lfloor>q\<rfloor> < n")
  case True
  then show ?thesis by (simp add: roundHalfEven_def)
next
  case False
  have "q < of_int (n + 1)" using assms by simp
  then have "\<lfloor>q\<rfloor> < n + 1" by (simp only: floor_less_iff)
  then have fl: "\<lfloor>q\<rfloor> = n" using False by simp
  then have "q - of_int \<lfloor>q\<rfloor> < 1 / 2" using assms by simp
  then show ?thesis using fl by (simp add: roundHalfEven_def)
qed

lemma roundHalfEven_gt:
  assumes "of_int n - 1 / 2 < q"
  shows "n \<le> roundHalfEven q"
proof (cases "n \<le> \<lfloor>q\<rfloor>")
  case True
  then show ?thesis by (simp add: roundHalfEven_def)
next
  case False
  have "of_int (n - 1) \<le> q" using assms by simp
  then have "n - 1 \<le> \<lfloor>q\<rfloor>" by (simp only: le_floor_iff)
  then have fl: "\<lfloor>q\<rfloor> = n - 1" using False by simp
  then have "1 / 2 < q - of_int \<lfloor>q\<rfloor>" using assms by simp
  then show ?thesis using fl by (simp add: roundHalfEven_def)
qed

lemma fromReal_finite:
  assumes "\<bar>r\<bar> < 2 ^ 1024 - 2 ^ 970"
  shows "fromReal r = Finite (roundToNearest r)"
proof -
  define e where "e = exponent r"
  define u where "u = (2::real) powi (e - 52)"
  define n where "n = roundHalfEven (r / u)"
  have upos: "0 < u" by (simp add: u_def)
  have d: "roundToNearest r = of_int n * u"
    by (simp add: roundToNearest_def ulp_def n_def u_def e_def)
  have range: "- 1022 \<le> e" "e \<le> 1023" using exponent_range[of r] by (simp_all add: e_def)
  have "\<bar>of_int n * u\<bar> < 2 ^ 1024"
  proof (cases "e < 1023")
    case True
    then have "\<bar>r\<bar> < 2 powi (e + 1)" unfolding e_def by (rule exponent_upper)
    moreover have s: "(2::real) powi (e + 1) = 2 ^ 53 * u"
      unfolding u_def by (rule powi_shift53)
    ultimately have "\<bar>r\<bar> < 2 ^ 53 * u" by simp
    then have "\<bar>r\<bar> / u < 2 ^ 53" using upos by (simp add: pos_divide_less_eq)
    then have "\<bar>r / u\<bar> \<le> of_int (2 ^ 53)" using upos by simp
    then have "\<bar>n\<bar> \<le> 2 ^ 53" unfolding n_def by (rule roundHalfEven_abs_le)
    then have "(of_int \<bar>n\<bar> :: real) \<le> of_int (2 ^ 53)" by (simp only: of_int_le_iff)
    then have "\<bar>of_int n :: real\<bar> \<le> 2 ^ 53" by simp
    then have "\<bar>of_int n :: real\<bar> * u \<le> 2 ^ 53 * u"
      using upos by (intro mult_right_mono) simp_all
    then have "\<bar>of_int n * u\<bar> \<le> 2 powi (e + 1)" using upos by (simp only: s abs_mult)
    moreover have "(2::real) powi (e + 1) \<le> 2 powi 1023"
      by (rule powi_mono) (use True in simp)
    moreover have "(2::real) powi 1023 < 2 ^ 1024" by simp
    ultimately show ?thesis by linarith
  next
    case False
    then have "e = 1023" using range by simp
    then have u: "u = 2 ^ 971" by (simp add: u_def)
    have "r / 2 ^ 971 < (2 ^ 1024 - 2 ^ 970) / 2 ^ 971"
      using assms by (simp only: divide_strict_right_mono zero_less_power zero_less_numeral abs_less_iff)
    then have "r / u < of_int (2 ^ 53 - 1) + 1 / 2" by (simp add: u)
    then have up: "n \<le> 2 ^ 53 - 1" unfolding n_def by (rule roundHalfEven_le)
    have "- ((2 ^ 1024 - 2 ^ 970) / 2 ^ 971) < r / (2 ^ 971 :: real)"
    proof -
      have "- (2 ^ 1024 - 2 ^ 970) < r" using assms by (simp only: abs_less_iff) simp
      then have "- (2 ^ 1024 - 2 ^ 970) / 2 ^ 971 < r / (2 ^ 971 :: real)"
        by (simp only: divide_strict_right_mono zero_less_power zero_less_numeral)
      then show ?thesis by simp
    qed
    then have "of_int (- (2 ^ 53 - 1)) - 1 / 2 < r / u" by (simp add: u)
    then have lo: "- (2 ^ 53 - 1) \<le> n" unfolding n_def by (rule roundHalfEven_gt)
    have "\<bar>n\<bar> \<le> 2 ^ 53 - 1" using up lo by simp
    then have "(of_int \<bar>n\<bar> :: real) \<le> of_int (2 ^ 53 - 1)" by (simp only: of_int_le_iff)
    then have "\<bar>of_int n :: real\<bar> \<le> 2 ^ 53 - 1" by simp
    then have "\<bar>of_int n :: real\<bar> * 2 ^ 971 \<le> (2 ^ 53 - 1) * 2 ^ 971" by simp
    then show ?thesis by (simp add: u abs_mult)
  qed
  then show ?thesis unfolding fromReal_def d by (auto simp: abs_less_iff)
qed

lemma fromReal_overflow_iff:
  "0 \<le> r \<Longrightarrow> isfinite (fromReal r) \<longleftrightarrow> r < 2 ^ 1024 - 2 ^ 970"
  using fromReal_overflow[of r] fromReal_finite[of r] by (cases "r < 2 ^ 1024 - 2 ^ 970") auto

lemma blockSub_doubles: "list_all isDouble (blockSub u d)"
  by (auto simp: blockSub_def list_all_iff scalarSub_isDouble)

lemma two_norm2_isDouble: "isDouble (two_norm2 v)"
proof (cases v rule: rev_cases)
  case Nil
  then show ?thesis using fromReal_of_int[of 0] by (simp add: two_norm2_def)
next
  case (snoc bs b)
  then show ?thesis by (simp add: two_norm2_def scalarAdd_isDouble)
qed

subsection \<open>Non-finite updates\<close>

lemma scalarMul_nonfinite: "\<not> isfinite x \<Longrightarrow> \<not> isfinite (scalarMul x x)"
  by (cases x) (simp_all add: scalarMul_def)

lemma scalarAdd_nonfinite:
  "\<not> isfinite x \<Longrightarrow> \<not> isfinite (scalarAdd x y)"
  "\<not> isfinite y \<Longrightarrow> \<not> isfinite (scalarAdd x y)"
  by (cases x; cases y; simp)+

lemma sum_stays_nonfinite:
  "\<not> isfinite acc \<Longrightarrow> \<not> isfinite (foldl (\<lambda>sum x. scalarAdd sum (g x)) acc xs)"
  by (induction xs arbitrary: acc) (simp_all add: scalarAdd_nonfinite)

lemma sum_nonfinite:
  "x \<in> set xs \<Longrightarrow> \<not> isfinite (g x) \<Longrightarrow> \<not> isfinite (foldl (\<lambda>sum x. scalarAdd sum (g x)) acc xs)"
proof (induction xs arbitrary: acc)
  case Nil
  then show ?case by simp
next
  case (Cons y ys)
  show ?case
  proof (cases "x = y")
    case True
    then have "\<not> isfinite (scalarAdd acc (g y))" using Cons.prems by (simp add: scalarAdd_nonfinite)
    then show ?thesis by (simp add: sum_stays_nonfinite)
  next
    case False
    then show ?thesis using Cons by simp
  qed
qed

lemma two_norm2_nonfinite:
  assumes "block \<in> set v" and "x \<in> set block" and "\<not> isfinite x"
  shows "\<not> isfinite (two_norm2 v)"
proof -
  have "\<not> isfinite (blockTwoNorm2 block)"
    unfolding blockTwoNorm2_def
    by (rule sum_nonfinite[OF assms(2)]) (rule scalarMul_nonfinite[OF assms(3)])
  then show ?thesis
    unfolding two_norm2_def by (rule sum_nonfinite[OF assms(1)])
qed

lemma allFinite_iff: "allFinite v \<longleftrightarrow> (\<forall>block \<in> set v. \<forall>x \<in> set block. isfinite x)"
  by (simp add: allFinite_def list_all_iff)

lemma subtract_loop:
  "n \<le> length uCurrentIter \<Longrightarrow>
   length (foldl (subtractDelta uLastIter deltaU) uCurrentIter [0..<n]) = length uCurrentIter \<and>
   (\<forall>i < length uCurrentIter.
      foldl (subtractDelta uLastIter deltaU) uCurrentIter [0..<n] ! i =
        (if i < n then blockSub (uLastIter ! i) (deltaU ! i) else uCurrentIter ! i))"
proof (induction n)
  case 0
  then show ?case by simp
next
  case (Suc n)
  let ?u = "foldl (subtractDelta uLastIter deltaU) uCurrentIter [0..<n]"
  have IH: "length ?u = length uCurrentIter"
    "\<forall>i < length uCurrentIter. ?u ! i =
        (if i < n then blockSub (uLastIter ! i) (deltaU ! i) else uCurrentIter ! i)"
    using Suc by auto
  have step: "foldl (subtractDelta uLastIter deltaU) uCurrentIter [0..<Suc n] =
              ?u[n := blockSub (uLastIter ! n) (deltaU ! n)]"
    by (simp add: subtractDelta_def)
  show ?case
    unfolding step using IH Suc.prems
    by (auto simp: nth_list_update less_Suc_eq)
qed

text \<open>
  Claim C7, as the code has it. \<^verbatim>\<open>update_\<close> throws a
  \<^verbatim>\<open>NumericalProblem\<close> exactly when \<^verbatim>\<open>deltaU.two_norm2()\<close>, the rounded sum
  of the rounded squares, is not finite, and then leaves \<^verbatim>\<open>uCurrentIter\<close> and the
  assembler as they are. That is so whenever \<^verbatim>\<open>deltaU\<close> holds a value that is not
  finite. Otherwise, with the three vectors of one size, it sets
  \<^verbatim>\<open>uCurrentIter[i]\<close> to the rounded difference \<^verbatim>\<open>uLastIter[i] - deltaU[i]\<close>
  for every index.
\<close>

theorem update_rejects_nonfinite_norm:
  assumes "length uCurrentIter = length uLastIter" and "length deltaU = length uLastIter"
    and "update_m asm nm uCurrentIter uLastIter deltaU = (thrown, uNext, nm')"
  shows "(thrown = Some NumericalProblem \<longleftrightarrow> \<not> isfinite (two_norm2 deltaU)) \<and>
         (\<not> allFinite deltaU \<longrightarrow> thrown = Some NumericalProblem) \<and>
         (thrown = Some NumericalProblem \<longrightarrow> uNext = uCurrentIter \<and> nm' = nm) \<and>
         (thrown \<noteq> Some NumericalProblem \<longrightarrow>
            thrown = None \<and> length uNext = length uLastIter \<and>
            (\<forall>i < length uLastIter. uNext ! i = blockSub (uLastIter ! i) (deltaU ! i)))"
proof (cases "isfinite (two_norm2 deltaU)")
  case False
  then have "thrown = Some NumericalProblem" "uNext = uCurrentIter" "nm' = nm"
    using assms(3) by (simp_all add: update_m_def)
  then show ?thesis using False by simp
next
  case True
  then have fin: "allFinite deltaU"
    using two_norm2_nonfinite[of _ deltaU] by (auto simp: allFinite_iff)
  have t: "thrown = None"
    and u: "uNext = foldl (subtractDelta uLastIter deltaU) uCurrentIter [0..<length uLastIter]"
    using True assms(3) by (simp_all add: update_m_def Let_def)
  have "length uNext = length uLastIter \<and>
        (\<forall>i < length uLastIter. uNext ! i = blockSub (uLastIter ! i) (deltaU ! i))"
    unfolding u using subtract_loop[of "length uLastIter" uCurrentIter uLastIter deltaU] assms(1)
    by simp
  then show ?thesis using True fin t by simp
qed

lemma fromReal_small:
  "fromReal 0 = Finite 0" "fromReal 1 = Finite 1" "fromReal 3 = Finite 3" "fromReal 4 = Finite 4"
  using fromReal_of_int[of 0] fromReal_of_int[of 1] fromReal_of_int[of 3] fromReal_of_int[of 4]
  by simp_all

lemma update_small:
  "update_m noAssembler someNewton [[Finite 0]] [[Finite 5]] [[Finite 2]] = (None, [[Finite 3]], someNewton)"
  by (simp add: update_m_def two_norm2_def blockTwoNorm2_def scalarMul_def fromReal_small
        noAssembler_def someNewton_def subtractDelta_def blockSub_def scalarSub_def Let_def)

lemma update_infinite:
  "update_m noAssembler someNewton [[Finite 0]] [[Finite 5]] [[PosInf]] =
     (Some NumericalProblem, [[Finite 0]], someNewton)"
  by (simp add: update_m_def two_norm2_def blockTwoNorm2_def scalarMul_def)

text \<open>
  The update 2 of the solution 5 gives 3; the update \<open>+\<infinity>\<close> is rejected and leaves
  the solution vector as it was.
\<close>

theorem update_rejects_nonfinite_norm_witness:
  "length [[Finite 0]] = length [[Finite 5]] \<and> length [[Finite 2]] = length [[Finite 5]] \<and>
   update_m noAssembler someNewton [[Finite 0]] [[Finite 5]] [[Finite 2]] = (None, [[Finite 3]], someNewton) \<and>
   isfinite (two_norm2 [[Finite 2]]) \<and>
   [[Finite 3]] ! 0 = blockSub ([[Finite 5]] ! 0) ([[Finite 2]] ! 0) \<and>
   update_m noAssembler someNewton [[Finite 0]] [[Finite 5]] [[PosInf]] =
     (Some NumericalProblem, [[Finite 0]], someNewton) \<and>
   \<not> allFinite [[PosInf]] \<and> \<not> isfinite (two_norm2 [[PosInf]])"
  using update_rejects_nonfinite_norm[OF _ _ update_small]
    update_rejects_nonfinite_norm[OF _ _ update_infinite]
  by (simp add: update_small update_infinite allFinite_def)

text \<open>
  Claim C7 as stated fails on a finite update whose sum of squares overflows: the update
  \<open>2^600\<close> is a finite double, its square \<open>2^1200\<close> is beyond the range of a
  double, \<^verbatim>\<open>two_norm2()\<close> is infinite and \<^verbatim>\<open>update_\<close> throws.
\<close>

theorem update_rejects_finite_update_on_overflow:
  "allFinite [[Finite (2 ^ 600)]] \<and> allDoubles [[Finite (2 ^ 600)]] \<and>
   two_norm2 [[Finite (2 ^ 600)]] = PosInf \<and>
   update_m noAssembler someNewton [[Finite 0]] [[Finite 5]] [[Finite (2 ^ 600)]] =
     (Some NumericalProblem, [[Finite 0]], someNewton)"
proof -
  have sq: "fromReal (2 ^ 600 * 2 ^ 600) = PosInf"
    by (rule fromReal_overflow) simp
  have norm: "two_norm2 [[Finite (2 ^ 600)]] = PosInf"
    by (simp only: two_norm2_def blockTwoNorm2_def scalarMul_def foldl.simps prod.case
          Scalar.case sq scalarAdd.simps)
  have "fromReal (2 ^ 600) = Finite (2 ^ 600)" by (rule fromReal_power2) simp
  then have "allDoubles [[Finite (2 ^ 600)]]" by (simp add: allDoubles_def)
  moreover have "allFinite [[Finite (2 ^ 600)]]" by (simp add: allFinite_def)
  moreover have "update_m noAssembler someNewton [[Finite 0]] [[Finite 5]] [[Finite (2 ^ 600)]] =
     (Some NumericalProblem, [[Finite 0]], someNewton)"
    by (simp only: update_m_def norm isfinite.simps not_False_eq_True if_True)
  ultimately show ?thesis using norm by (simp only: simp_thms)
qed

text \<open>
  Rounding decides whether \<^verbatim>\<open>update_\<close> throws. The squares of the four entries
  \<open>2^511\<close>, \<open>2^511\<close>, \<open>2^511\<close> and \<open>2^511 - 2^458\<close> add up to
  \<open>2^1024 - 2^970 + 2^916\<close>, which is below \<open>2^1024\<close>. The last square is rounded to
  \<open>2^1022 - 2^970\<close>, the sum \<open>2^1024 - 2^970\<close> lies half-way between the largest
  double and \<open>2^1024\<close> and is rounded to the even neighbour, so \<^verbatim>\<open>two_norm2()\<close>
  is infinite.
\<close>

lemma square_rounded:
  "fromReal ((2 ^ 511 - 2 ^ 458) * (2 ^ 511 - 2 ^ 458)) = Finite (2 ^ 1022 - 2 ^ 970)"
proof -
  have "fromReal ((2 ^ 511 - 2 ^ 458) * (2 ^ 511 - 2 ^ 458)) =
        Finite (of_int (2 ^ 53 - 2) * 2 powi (1021 - 52))"
    by (rule fromReal_rounded) (simp_all add: roundHalfEven_def)
  then show ?thesis by simp
qed

lemma two_norm2_overflows_by_rounding:
  "allFinite [[Finite (2 ^ 511)], [Finite (2 ^ 511)], [Finite (2 ^ 511)], [Finite (2 ^ 511 - 2 ^ 458)]] \<and>
   two_norm2 [[Finite (2 ^ 511)], [Finite (2 ^ 511)], [Finite (2 ^ 511)], [Finite (2 ^ 511 - 2 ^ 458)]]
     = PosInf \<and>
   fst (update_m asm nm uCurrentIter uLastIter
          [[Finite (2 ^ 511)], [Finite (2 ^ 511)], [Finite (2 ^ 511)], [Finite (2 ^ 511 - 2 ^ 458)]])
     = Some NumericalProblem"
proof -
  have a: "fromReal (2 ^ 511 * 2 ^ 511) = Finite (2 ^ 1022)"
    using fromReal_power2[of 1022] by simp
  have b: "fromReal (0 + 2 ^ 1022) = Finite (2 ^ 1022)"
    using fromReal_power2[of 1022] by simp
  have c: "fromReal (2 ^ 1022 + 2 ^ 1022) = Finite (2 ^ 1023)"
    using fromReal_power2[of 1023] by simp
  have d: "fromReal (2 ^ 1023 + 2 ^ 1022) = Finite (3 * 2 ^ 1022)"
    using fromReal_exact[of "3 * 2 ^ 1022" 3 1022] by simp
  have e: "fromReal (0 + (2 ^ 1022 - 2 ^ 970)) = Finite (2 ^ 1022 - 2 ^ 970)"
    using fromReal_exact[of "2 ^ 1022 - 2 ^ 970" "2 ^ 52 - 1" 970] by simp
  have f: "fromReal (3 * 2 ^ 1022 + (2 ^ 1022 - 2 ^ 970)) = PosInf"
    by (rule fromReal_overflow) simp
  have norm: "two_norm2 [[Finite (2 ^ 511)], [Finite (2 ^ 511)], [Finite (2 ^ 511)], [Finite (2 ^ 511 - 2 ^ 458)]]
     = PosInf"
    by (simp only: two_norm2_def blockTwoNorm2_def scalarMul_def foldl.simps prod.case
          Scalar.case scalarAdd.simps a b c d e f square_rounded)
  have "fst (update_m asm nm uCurrentIter uLastIter
          [[Finite (2 ^ 511)], [Finite (2 ^ 511)], [Finite (2 ^ 511)], [Finite (2 ^ 511 - 2 ^ 458)]])
     = Some NumericalProblem"
    by (simp only: update_m_def norm isfinite.simps not_False_eq_True if_True fst_conv)
  moreover have "allFinite [[Finite (2 ^ 511)], [Finite (2 ^ 511)], [Finite (2 ^ 511)], [Finite (2 ^ 511 - 2 ^ 458)]]"
    by (simp add: allFinite_def)
  ultimately show ?thesis using norm by (simp only: simp_thms)
qed

text \<open>
  The difference is rounded as well: \<open>2^53 + 1\<close> is not a double, and the update
  \<open>-1\<close> of the solution \<open>2^53\<close> leaves it at \<open>2^53\<close>.
\<close>

lemma update_rounds_difference:
  "update_m noAssembler someNewton [[Finite 0]] [[Finite (2 ^ 53)]] [[Finite (- 1)]] =
     (None, [[Finite (2 ^ 53)]], someNewton)"
proof -
  have "fromReal (2 ^ 53 + 1) = Finite (of_int (2 ^ 52) * 2 powi (53 - 52))"
    by (rule fromReal_rounded) (simp_all add: roundHalfEven_def)
  then have r: "fromReal (2 ^ 53 + 1) = Finite (2 ^ 53)" by simp
  show ?thesis using r
    by (simp add: update_m_def two_norm2_def blockTwoNorm2_def scalarMul_def fromReal_small
        noAssembler_def someNewton_def subtractDelta_def blockSub_def scalarSub_def Let_def)
qed

subsection \<open>Red degrees of freedom across the exchanges\<close>

lemma colorMin_red: "colorMin Red c = Red"
  by (simp add: colorMin_def)

lemma colorMin_red_received: "colorMin c Red = Red"
  by (cases c) (simp_all add: colorMin_def)

lemma foldl_colorMin_red: "foldl colorMin Red cs = Red"
  by (induction cs) (simp_all add: colorMin_red)

lemma foldl_colorMin_receives_red: "Red \<in> set cs \<Longrightarrow> foldl colorMin c cs = Red"
proof (induction cs arbitrary: c)
  case Nil
  then show ?case by simp
next
  case (Cons x cs)
  then show ?case by (auto simp: colorMin_red_received foldl_colorMin_red)
qed

lemma foldl_colorMax_all_red: "\<forall>x \<in> set cs. x = Red \<Longrightarrow> foldl colorMax Red cs = Red"
  by (induction cs) (simp_all add: colorMax_def)

lemma onEachProcess_nth:
  "rank < length procs \<Longrightarrow>
     onEachProcess f procs ! rank =
       (procs ! rank)\<lparr>assemblerOf := f (problemOf (procs ! rank)) (assemblerOf (procs ! rank))\<rparr>"
  by (simp add: onEachProcess_def)

lemma onEachProcess_length: "length (onEachProcess f procs) = length procs"
  by (simp add: onEachProcess_def)

lemma exchangeColors_length: "length (exchangeColors reduce procs) = length procs"
  by (simp add: exchangeColors_def)

lemma exchangeColors_nth:
  assumes "rank < length procs"
  shows "borderEntity (exchangeColors reduce procs ! rank) = borderEntity (procs ! rank)"
    and "problemOf (exchangeColors reduce procs ! rank) = problemOf (procs ! rank)"
    and "length (dofColor_m (assemblerOf (exchangeColors reduce procs ! rank))) =
         length (dofColor_m (assemblerOf (procs ! rank)))"
    and "i < length (dofColor_m (assemblerOf (procs ! rank))) \<Longrightarrow>
         dofColor_m (assemblerOf (exchangeColors reduce procs ! rank)) ! i =
           foldl reduce (dofColor_m (assemblerOf (procs ! rank)) ! i) (receivedFor procs rank i)"
  using assms by (simp_all add: exchangeColors_def)

lemma receivedFor_member:
  assumes "c \<in> set (receivedFor procs rank i)"
  shows "\<exists>q j entity. q < length procs \<and> q \<noteq> rank \<and>
           j < length (dofColor_m (assemblerOf (procs ! q))) \<and>
           borderEntity (procs ! rank) i = Some entity \<and>
           borderEntity (procs ! q) j = Some entity \<and>
           c = dofColor_m (assemblerOf (procs ! q)) ! j"
proof (cases "borderEntity (procs ! rank) i")
  case None
  then show ?thesis using assms by (simp add: receivedFor_def)
next
  case (Some entity)
  then have "c \<in> set (concat (map (\<lambda>q. if q = rank then [] else sentFor (procs ! q) entity)
                                [0..<length procs]))"
    using assms by (simp add: receivedFor_def)
  then obtain q where q: "q < length procs" "q \<noteq> rank" "c \<in> set (sentFor (procs ! q) entity)"
    by (auto split: if_splits)
  then obtain j where "j < length (dofColor_m (assemblerOf (procs ! q)))"
    "borderEntity (procs ! q) j = Some entity" "c = dofColor_m (assemblerOf (procs ! q)) ! j"
    by (auto simp: sentFor_def)
  with q Some show ?thesis by blast
qed

lemma receivedFor_contains:
  assumes "q < length procs" "q \<noteq> rank" "j < length (dofColor_m (assemblerOf (procs ! q)))"
    and "borderEntity (procs ! rank) i = Some entity" "borderEntity (procs ! q) j = Some entity"
  shows "dofColor_m (assemblerOf (procs ! q)) ! j \<in> set (receivedFor procs rank i)"
  using assms by (force simp: receivedFor_def sentFor_def)

lemma colorsBeforeMinExchange_red:
  shows "length (dofColor_m (colorsBeforeMinExchange P tolerance s)) = length (dofColor_m s)"
    and "i < length (dofColor_m s) \<Longrightarrow> dofColor_m s ! i = Red \<or> dofError_m s ! i > tolerance \<Longrightarrow>
           dofColor_m (colorsBeforeMinExchange P tolerance s) ! i = Red"
proof -
  let ?S1 = "markRedDofs tolerance s"
  let ?S2 = "markRedElements P ?S1"
  have o3: "orangeStep ?S2 (markOrangeDofs P ?S2)" by (rule orangeStep_markOrangeDofs)
  have d2: "dofColor_m ?S2 = dofColor_m ?S1" by (rule markRedElements_dofColor)
  show "length (dofColor_m (colorsBeforeMinExchange P tolerance s)) = length (dofColor_m s)"
    using o3 d2 markRedDofs_props(1)[of tolerance s]
    by (simp add: colorsBeforeMinExchange_def orangeStep_def)
  show "i < length (dofColor_m s) \<Longrightarrow> dofColor_m s ! i = Red \<or> dofError_m s ! i > tolerance \<Longrightarrow>
           dofColor_m (colorsBeforeMinExchange P tolerance s) ! i = Red"
    using orangeStep_red_iff[OF o3, of i] d2 markRedDofs_props(4)[of i s tolerance]
    by (simp add: colorsBeforeMinExchange_def)
qed

lemma colorsBeforeMaxExchange_red:
  shows "length (dofColor_m (colorsBeforeMaxExchange P s)) = length (dofColor_m s)"
    and "dofColor_m s ! i = Red \<Longrightarrow> dofColor_m (colorsBeforeMaxExchange P s) ! i = Red"
proof -
  let ?S4 = "markYellowElements P s"
  have o5: "demoteStep ?S4 (demoteOrangeDofs P ?S4)" by (rule demoteStep_demoteOrangeDofs)
  have d4: "dofColor_m ?S4 = dofColor_m s" by (rule markYellowElements_dofColor)
  show "length (dofColor_m (colorsBeforeMaxExchange P s)) = length (dofColor_m s)"
    using o5 d4 by (simp add: colorsBeforeMaxExchange_def demoteStep_def)
  show "dofColor_m s ! i = Red \<Longrightarrow> dofColor_m (colorsBeforeMaxExchange P s) ! i = Red"
    using demoteStep_red_iff[OF o5, of i] d4 by (simp add: colorsBeforeMaxExchange_def)
qed

lemma promoteOrangeDofs_red:
  "i < length (dofColor_m s) \<Longrightarrow> dofColor_m s ! i = Red \<Longrightarrow>
     dofColor_m (promoteOrangeDofs s) ! i = Red"
  using promoteOrangeDofs_props(3)[of i s] by simp

lemma computeColorsParallel_keeps_red:
  fixes procs :: "'a::{zero,ord} process list"
  assumes rank: "rank < length procs"
    and i: "i < length (dofColor_m (assemblerOf (procs ! rank)))"
    and err: "dofError_m (assemblerOf (procs ! rank)) ! i > tolerance"
  defines "P1 \<equiv> onEachProcess (\<lambda>P. colorsBeforeMinExchange P tolerance) procs"
  defines "P2 \<equiv> exchangeColors colorMin P1"
  defines "P3 \<equiv> onEachProcess colorsBeforeMaxExchange P2"
  defines "P4 \<equiv> exchangeColors colorMax P3"
  defines "P5 \<equiv> onEachProcess (\<lambda>P. promoteOrangeDofs) P4"
  shows "dofColor_m (assemblerOf (P5 ! rank)) ! i = Red"
proof -
  have len: "length P1 = length procs" "length P2 = length procs" "length P3 = length procs"
    "length P4 = length procs"
    by (simp_all add: P1_def P2_def P3_def P4_def onEachProcess_length exchangeColors_length)
  txt \<open>Sizes and border entities stay as they are.\<close>
  have b1: "\<And>q. q < length procs \<Longrightarrow> borderEntity (P1 ! q) = borderEntity (procs ! q) \<and>
              length (dofColor_m (assemblerOf (P1 ! q))) = length (dofColor_m (assemblerOf (procs ! q)))"
    by (simp add: P1_def onEachProcess_nth colorsBeforeMinExchange_red(1))
  have b2: "\<And>q. q < length procs \<Longrightarrow> borderEntity (P2 ! q) = borderEntity (procs ! q) \<and>
              length (dofColor_m (assemblerOf (P2 ! q))) = length (dofColor_m (assemblerOf (procs ! q)))"
    using b1 len by (simp add: P2_def exchangeColors_nth)
  have b3: "\<And>q. q < length procs \<Longrightarrow> borderEntity (P3 ! q) = borderEntity (procs ! q) \<and>
              length (dofColor_m (assemblerOf (P3 ! q))) = length (dofColor_m (assemblerOf (procs ! q)))"
    using b2 len by (simp add: P3_def onEachProcess_nth colorsBeforeMaxExchange_red(1))
  have b4: "length (dofColor_m (assemblerOf (P4 ! rank))) = length (dofColor_m (assemblerOf (procs ! rank)))"
    using b3 len rank by (simp add: P4_def exchangeColors_nth)
  txt \<open>The degree of freedom is red before the first exchange.\<close>
  have r1: "dofColor_m (assemblerOf (P1 ! rank)) ! i = Red"
    using rank i err by (simp add: P1_def onEachProcess_nth colorsBeforeMinExchange_red(2))
  have i1: "i < length (dofColor_m (assemblerOf (P1 ! rank)))" using b1 rank i by simp
  txt \<open>After the first exchange it is red, and so is every copy of it on another process.\<close>
  have r2: "dofColor_m (assemblerOf (P2 ! rank)) ! i = Red"
    using exchangeColors_nth(4)[of rank P1 i colorMin] rank len i1 r1
    by (simp add: P2_def foldl_colorMin_red)
  have c2: "\<And>q j entity. q < length procs \<Longrightarrow> q \<noteq> rank \<Longrightarrow>
              j < length (dofColor_m (assemblerOf (procs ! q))) \<Longrightarrow>
              borderEntity (procs ! rank) i = Some entity \<Longrightarrow>
              borderEntity (procs ! q) j = Some entity \<Longrightarrow>
              dofColor_m (assemblerOf (P2 ! q)) ! j = Red"
  proof -
    fix q j entity
    assume q: "q < length procs" "q \<noteq> rank" and j: "j < length (dofColor_m (assemblerOf (procs ! q)))"
      and e: "borderEntity (procs ! rank) i = Some entity" "borderEntity (procs ! q) j = Some entity"
    have "dofColor_m (assemblerOf (P1 ! rank)) ! i \<in> set (receivedFor P1 q j)"
      using receivedFor_contains[of rank P1 q i j entity] rank q len i1 e b1 by simp
    then have "Red \<in> set (receivedFor P1 q j)" using r1 by simp
    then show "dofColor_m (assemblerOf (P2 ! q)) ! j = Red"
      using exchangeColors_nth(4)[of q P1 j colorMin] q len j b1
      by (simp add: P2_def foldl_colorMin_receives_red)
  qed
  txt \<open>The local work between the exchanges keeps red.\<close>
  have r3: "dofColor_m (assemblerOf (P3 ! rank)) ! i = Red"
    using rank len r2 by (simp add: P3_def onEachProcess_nth colorsBeforeMaxExchange_red(2))
  have c3: "\<And>q j entity. q < length procs \<Longrightarrow> q \<noteq> rank \<Longrightarrow>
              j < length (dofColor_m (assemblerOf (procs ! q))) \<Longrightarrow>
              borderEntity (procs ! rank) i = Some entity \<Longrightarrow>
              borderEntity (procs ! q) j = Some entity \<Longrightarrow>
              dofColor_m (assemblerOf (P3 ! q)) ! j = Red"
    using c2 len by (simp add: P3_def onEachProcess_nth colorsBeforeMaxExchange_red(2))
  txt \<open>So the second exchange receives red only.\<close>
  have "\<forall>c \<in> set (receivedFor P3 rank i). c = Red"
  proof
    fix c assume "c \<in> set (receivedFor P3 rank i)"
    from receivedFor_member[OF this] obtain q j entity where
      "q < length P3" "q \<noteq> rank" "j < length (dofColor_m (assemblerOf (P3 ! q)))"
      "borderEntity (P3 ! rank) i = Some entity" "borderEntity (P3 ! q) j = Some entity"
      "c = dofColor_m (assemblerOf (P3 ! q)) ! j"
      by blast
    then show "c = Red" using c3[of q j entity] b3 len rank by simp
  qed
  then have r4: "dofColor_m (assemblerOf (P4 ! rank)) ! i = Red"
    using exchangeColors_nth(4)[of rank P3 i colorMax] rank len i b3 r3
    by (simp add: P4_def foldl_colorMax_all_red)
  show ?thesis
    using rank len r4 b4 i by (simp add: P5_def onEachProcess_nth promoteOrangeDofs_red)
qed

subsection \<open>Degrees of freedom above the tolerance\<close>

lemma computeColorsParallel_alone:
  "computeColorsParallel tolerance [p] =
     [p\<lparr>assemblerOf := computeColors (problemOf p) tolerance (assemblerOf p)\<rparr>]"
proof (cases "enablePartialRelinearization (problemOf p)")
  case False
  then show ?thesis by (simp add: computeColorsParallel_def computeColors_def)
next
  case True
  have rc: "\<And>q i. receivedFor [q] 0 i = []"
    by (simp add: receivedFor_def split: option.splits)
  have ex: "\<And>reduce q. exchangeColors reduce [q] = [q]"
    by (simp add: exchangeColors_def rc map_nth)
  show ?thesis
    using True by (simp add: computeColorsParallel_def computeColors_def onEachProcess_def ex)
qed

lemma twoChains_colors:
  "map (\<lambda>p. dofColor_m (assemblerOf p)) (computeColorsParallel (1 / 2) twoChains) =
     [[Green, Green, Red, Red], [Red, Green, Green, Green]]"
  by (simp add: computeColorsParallel_def twoChains_def onEachProcess_def exchangeColors_def
      receivedFor_def sentFor_def colorMin_def colorMax_def
      computeColors_defs chainProblem_def chainState_def chainAssembled_def upt_small Let_def)

text \<open>
  Claim C2. With partial relinearization enabled, a degree of freedom whose recorded error
  is above the tolerance when \<^verbatim>\<open>computeColors(tolerance)\<close> is called is red
  when the call returns: \<^verbatim>\<open>dofColor\<close> returns \<open>Red\<close> for it. The first loop
  makes it red and no later loop recolours a red degree of freedom; with several
  processes, the minimum exchange makes every copy of it on another process red, so that
  the maximum exchange brings back red only. The statement is about a process among
  several, and about \<open>computeColors\<close> on a process by itself.
\<close>

theorem computeColors_error_above_tolerance_red:
  fixes procs :: "'a::{zero,ord} process list"
  assumes "\<forall>p \<in> set procs. enablePartialRelinearization (problemOf p)"
    and "rank < length procs"
    and "i < length (dofColor_m (assemblerOf (procs ! rank)))"
    and "dofError_m (assemblerOf (procs ! rank)) ! i > tolerance"
  shows "dofColor (problemOf (procs ! rank))
           (assemblerOf (computeColorsParallel tolerance procs ! rank)) i = Red \<and>
         dofColor (problemOf (procs ! rank))
           (computeColors (problemOf (procs ! rank)) tolerance (assemblerOf (procs ! rank))) i = Red"
proof -
  have en: "enablePartialRelinearization (problemOf (procs ! rank))"
    using assms(1,2) by simp
  have all: "\<not> list_ex (\<lambda>p. \<not> enablePartialRelinearization (problemOf p)) procs"
    using assms(1) by (simp add: list_ex_iff)
  have "dofColor_m (assemblerOf (computeColorsParallel tolerance procs ! rank)) ! i = Red"
    using computeColorsParallel_keeps_red[OF assms(2,3,4)] all
    by (simp add: computeColorsParallel_def)
  moreover have "dofColor_m (computeColors (problemOf (procs ! rank)) tolerance
                   (assemblerOf (procs ! rank))) ! i = Red"
    using computeColors_keeps_red[OF assms(3), of tolerance "problemOf (procs ! rank)"] assms(4) en
    by (simp add: computeColors_def)
  ultimately show ?thesis using en by (simp add: dofColor_def)
qed

text \<open>
  On the two chains with tolerance \<open>1/2\<close>, degree of freedom 3 of the first process has
  the error 1 and ends red; its copy, degree of freedom 0 of the second process, ends red
  as well.
\<close>

theorem computeColors_error_above_tolerance_red_witness:
  "list_all (\<lambda>p. enablePartialRelinearization (problemOf p)) twoChains \<and>
   0 < length twoChains \<and>
   3 < length (dofColor_m (assemblerOf (twoChains ! 0))) \<and>
   dofError_m (assemblerOf (twoChains ! 0)) ! 3 > 1 / 2 \<and>
   dofColor (problemOf (twoChains ! 0)) (assemblerOf (computeColorsParallel (1 / 2) twoChains ! 0)) 3 = Red \<and>
   dofColor (problemOf (twoChains ! 0))
     (computeColors (problemOf (twoChains ! 0)) (1 / 2) (assemblerOf (twoChains ! 0))) 3 = Red \<and>
   map (\<lambda>p. dofColor_m (assemblerOf p)) (computeColorsParallel (1 / 2) twoChains) =
     [[Green, Green, Red, Red], [Red, Green, Green, Green]]"
proof -
  have h: "\<forall>p \<in> set twoChains. enablePartialRelinearization (problemOf p)"
    "0 < length twoChains" "3 < length (dofColor_m (assemblerOf (twoChains ! 0)))"
    "dofError_m (assemblerOf (twoChains ! 0)) ! 3 > 1 / 2"
    by (simp_all add: twoChains_def chainProblem_def chainState_def chainAssembled_def)
  from computeColors_error_above_tolerance_red[OF h] h twoChains_colors
  show ?thesis by (simp add: list_all_iff)
qed

end
